theory Spec2Isabelle
  imports Complex_Main
begin

section \<open>Data model\<close>

text \<open>
  The clip of \<^verbatim>\<open>src/types.ts\<close>. JavaScript numbers are modelled as exact reals;
  the opaque \<^verbatim>\<open>file\<close> handle plays no role in the timeline logic and is left out.
  The fields \<^verbatim>\<open>id\<close> and \<^verbatim>\<open>end\<close> are written \<open>id'\<close> and \<open>end'\<close>.
\<close>

record Clip =
  id' :: string
  url :: string
  name :: string
  originalDuration :: real
  start :: real
  end' :: real
  fps :: real
  isSelected :: bool

text \<open>
  An element of the derived sequence of \<^verbatim>\<open>Player.tsx\<close>: the clip's own fields
  (the object spread) followed by its position on the global timeline.
\<close>

record SequenceEntry = Clip +
  sequenceStart :: real
  sequenceDuration :: real
  sequenceEnd :: real

section \<open>Sequence calculation\<close>

text \<open>
  \<^verbatim>\<open>clips.map\<close> with the captured accumulator \<^verbatim>\<open>accumulatedTime\<close>: the
  accumulator is the first argument, and each clip yields one entry.
\<close>

fun sequenceFrom :: "real \<Rightarrow> Clip list \<Rightarrow> SequenceEntry list" where
  "sequenceFrom accumulatedTime [] = []"
| "sequenceFrom accumulatedTime (clip # clips) =
     (let duration = end' clip - start clip;
          start0 = accumulatedTime
      in \<lparr> id' = id' clip, url = url clip, name = name clip,
            originalDuration = originalDuration clip,
            start = start clip, end' = end' clip, fps = fps clip,
            isSelected = isSelected clip,
            sequenceStart = start0,
            sequenceDuration = duration,
            sequenceEnd = start0 + duration \<rparr>
         # sequenceFrom (accumulatedTime + duration) clips)"

definition sequence :: "Clip list \<Rightarrow> SequenceEntry list" where
  "sequence clips = sequenceFrom 0 clips"

definition totalDurationOf :: "SequenceEntry list \<Rightarrow> real" where
  "totalDurationOf sq = (if length sq > 0 then sequenceEnd (sq ! (length sq - 1)) else 0)"

definition totalDuration :: "Clip list \<Rightarrow> real" where
  "totalDuration clips = totalDurationOf (sequence clips)"

section \<open>Time mapping\<close>

text \<open>
  \<^verbatim>\<open>Array.prototype.find\<close> is \<^const>\<open>List.find\<close>; \<^verbatim>\<open>sequence[sequence.length - 1]\<close>
  is \<^verbatim>\<open>undefined\<close> on the empty array, which is \<open>None\<close> here.
\<close>

definition inWindow :: "real \<Rightarrow> SequenceEntry \<Rightarrow> bool" where
  "inWindow t c \<longleftrightarrow> t \<ge> sequenceStart c \<and> t < sequenceEnd c"

definition lastEntry :: "SequenceEntry list \<Rightarrow> SequenceEntry option" where
  "lastEntry sq = (if sq = [] then None else Some (sq ! (length sq - 1)))"

text \<open>
  \<^verbatim>\<open>sequence.find(c => t >= c.sequenceStart && t < c.sequenceEnd) || sequence[sequence.length - 1]\<close>
\<close>

definition targetClipAt :: "SequenceEntry list \<Rightarrow> real \<Rightarrow> SequenceEntry option" where
  "targetClipAt sq t =
     (case List.find (inWindow t) sq of
        Some c \<Rightarrow> Some c
      | None \<Rightarrow> lastEntry sq)"

text \<open>\<^verbatim>\<open>Math.max(0, Math.min(time, totalDurationRef.current))\<close>\<close>

definition clampSeekTime :: "Clip list \<Rightarrow> real \<Rightarrow> real" where
  "clampSeekTime clips time = max 0 (min time (totalDuration clips))"

text \<open>
  The target of a commit seek, lines 473 to 479 of \<^verbatim>\<open>seekToGlobalTime\<close>: the entry and
  \<^verbatim>\<open>localSeekTime\<close>. The source applies no clamp to \<^verbatim>\<open>localSeekTime\<close>. The sums
  and differences here are exact; \<open>commitSeekTargetWith\<close> below is the same computation
  with every sum and difference rounded as the machine does.
\<close>

definition commitSeekTarget :: "Clip list \<Rightarrow> real \<Rightarrow> (SequenceEntry \<times> real) option" where
  "commitSeekTarget clips time =
     (let seekTime = clampSeekTime clips time
      in case targetClipAt (sequence clips) seekTime of
           None \<Rightarrow> None
         | Some targetClip \<Rightarrow>
             Some (targetClip, start targetClip + (seekTime - sequenceStart targetClip)))"

text \<open>
  The mapping of the preview worker, lines 605 to 615 of \<^verbatim>\<open>updateTimelinePreviewFromClientX\<close>:
  the same search, followed by
  \<^verbatim>\<open>Math.max(targetClip.start, Math.min(unclampedLocalTime, targetClip.end))\<close>.
\<close>

definition workerTarget :: "Clip list \<Rightarrow> real \<Rightarrow> (SequenceEntry \<times> real) option" where
  "workerTarget clips requestedTime =
     (let clippedTime = max 0 (min requestedTime (totalDuration clips));
          seq = sequence clips
      in if length seq = 0 then None
         else case targetClipAt seq clippedTime of
                None \<Rightarrow> None
              | Some targetClip \<Rightarrow>
                  (let unclampedLocalTime = start targetClip + (clippedTime - sequenceStart targetClip);
                       localTime = max (start targetClip) (min unclampedLocalTime (end' targetClip))
                   in Some (targetClip, localTime)))"

text \<open>
  \<^verbatim>\<open>clamp\<close> and \<^verbatim>\<open>toGlobalTimeFromLocal\<close> of \<^verbatim>\<open>ClipItem.tsx\<close>; the item receives its
  clip and the clip's \<^verbatim>\<open>sequenceStart\<close> as properties.
\<close>

definition clamp :: "real \<Rightarrow> real \<Rightarrow> real \<Rightarrow> real" where
  "clamp value mn mx = min mx (max mn value)"

definition toGlobalTimeFromLocal :: "'a Clip_scheme \<Rightarrow> real \<Rightarrow> real \<Rightarrow> real" where
  "toGlobalTimeFromLocal clip sequenceStart0 localTime =
     (let clampedLocal = clamp localTime (start clip) (end' clip)
      in sequenceStart0 + (clampedLocal - start clip))"

text \<open>
  \<^verbatim>\<open>clipsWithSelection\<close> of the application, which hands each list item its clip with
  the selection flag and the clip's \<^verbatim>\<open>sequenceStart\<close> and \<^verbatim>\<open>sequenceEnd\<close>, here as
  a triple.
\<close>

fun clipsWithSelectionFrom :: "real \<Rightarrow> string option \<Rightarrow> Clip list \<Rightarrow> (Clip \<times> real \<times> real) list" where
  "clipsWithSelectionFrom accumulatedTime selectedClipId [] = []"
| "clipsWithSelectionFrom accumulatedTime selectedClipId (c # cl) =
     (let duration = end' c - start c;
          sequenceStart0 = accumulatedTime;
          accumulatedTime0 = accumulatedTime + duration
      in (c\<lparr>isSelected := (Some (id' c) = selectedClipId)\<rparr>, sequenceStart0, accumulatedTime0)
         # clipsWithSelectionFrom accumulatedTime0 selectedClipId cl)"

definition clipsWithSelection :: "string option \<Rightarrow> Clip list \<Rightarrow> (Clip \<times> real \<times> real) list" where
  "clipsWithSelection selectedClipId cl = clipsWithSelectionFrom 0 selectedClipId cl"

text \<open>The scenario of three untrimmed clips of 10, 5 and 8 seconds.\<close>

definition threeClips :: "Clip list" where
  "threeClips =
     [\<lparr> id' = ''a'', url = ''blob:a'', name = ''a.mp4'', originalDuration = 10, start = 0, end' = 10, fps = 60, isSelected = False \<rparr>,
      \<lparr> id' = ''b'', url = ''blob:b'', name = ''b.mp4'', originalDuration = 5, start = 0, end' = 5, fps = 60, isSelected = False \<rparr>,
      \<lparr> id' = ''c'', url = ''blob:c'', name = ''c.mp4'', originalDuration = 8, start = 0, end' = 8, fps = 60, isSelected = False \<rparr>]"


section \<open>Time mapping in double precision\<close>

text \<open>
  A JavaScript number is an IEEE 754 binary64 value, and \<^verbatim>\<open>+\<close> and \<^verbatim>\<open>-\<close> return the exact
  sum or difference rounded to the nearest such value, ties to the even significand.
  \<open>bitLength n\<close> is the number of binary digits of \<open>n\<close>, \<open>binade x\<close> the exponent \<open>e\<close> with
  \<open>2 ^ e \<le> x < 2 ^ (e + 1)\<close> for positive \<open>x\<close>, and \<open>binary64 x\<close> the multiple of the unit in the
  last place (53 significant bits, exponents from -1022) nearest to \<open>x\<close>. Values beyond the
  largest finite number, which round to an infinity, are outside this model; the time
  mapping compares, adds and subtracts only.
\<close>

fun bitLength :: "nat \<Rightarrow> nat" where
  "bitLength n = (if n = 0 then 0 else Suc (bitLength (n div 2)))"

declare bitLength.simps [simp del]

definition binade :: "real \<Rightarrow> int" where
  "binade x = (if 1 \<le> x then int (bitLength (nat \<lfloor>x\<rfloor>)) - 1
               else - int (bitLength (nat (\<lceil>1 / x\<rceil> - 1))))"

definition pow2 :: "int \<Rightarrow> real" where
  "pow2 e = (if 0 \<le> e then 2 ^ nat e else 1 / 2 ^ nat (- e))"

definition roundTiesToEven :: "real \<Rightarrow> int" where
  "roundTiesToEven x =
     (let n = \<lfloor>x\<rfloor>; r = x - of_int n
      in if r < 1 / 2 then n else if 1 / 2 < r then n + 1 else if even n then n else n + 1)"

definition binary64 :: "real \<Rightarrow> real" where
  "binary64 x =
     (if x = 0 then 0
      else let ulp = pow2 (max (binade \<bar>x\<bar>) (- 1022) - 52)
           in of_int (roundTiesToEven (x / ulp)) * ulp)"

text \<open>
  The sequence calculation and the two time mappings once more, line by line as above, with
  the result of every \<^verbatim>\<open>+\<close> and \<^verbatim>\<open>-\<close> passed through \<open>rnd\<close>: with \<open>rnd\<close> the identity
  they are the definitions above, with \<open>rnd = binary64\<close> they are what the machine computes.
  \<^verbatim>\<open>Math.max\<close>, \<^verbatim>\<open>Math.min\<close> and the comparisons are exact.
\<close>

fun sequenceFromWith :: "(real \<Rightarrow> real) \<Rightarrow> real \<Rightarrow> Clip list \<Rightarrow> SequenceEntry list" where
  "sequenceFromWith rnd accumulatedTime [] = []"
| "sequenceFromWith rnd accumulatedTime (clip # clips) =
     (let duration = rnd (end' clip - start clip);
          start0 = accumulatedTime
      in \<lparr> id' = id' clip, url = url clip, name = name clip,
            originalDuration = originalDuration clip,
            start = start clip, end' = end' clip, fps = fps clip,
            isSelected = isSelected clip,
            sequenceStart = start0,
            sequenceDuration = duration,
            sequenceEnd = rnd (start0 + duration) \<rparr>
         # sequenceFromWith rnd (rnd (accumulatedTime + duration)) clips)"

definition sequenceWith :: "(real \<Rightarrow> real) \<Rightarrow> Clip list \<Rightarrow> SequenceEntry list" where
  "sequenceWith rnd clips = sequenceFromWith rnd 0 clips"

definition totalDurationWith :: "(real \<Rightarrow> real) \<Rightarrow> Clip list \<Rightarrow> real" where
  "totalDurationWith rnd clips = totalDurationOf (sequenceWith rnd clips)"

definition clampSeekTimeWith :: "(real \<Rightarrow> real) \<Rightarrow> Clip list \<Rightarrow> real \<Rightarrow> real" where
  "clampSeekTimeWith rnd clips time = max 0 (min time (totalDurationWith rnd clips))"

text \<open>
  \<^verbatim>\<open>targetClip.start + (seekTime - targetClip.sequenceStart)\<close> of line 479: a difference, then
  a sum, and no clamp.
\<close>

definition commitSeekTargetWith ::
  "(real \<Rightarrow> real) \<Rightarrow> Clip list \<Rightarrow> real \<Rightarrow> (SequenceEntry \<times> real) option" where
  "commitSeekTargetWith rnd clips time =
     (let seekTime = clampSeekTimeWith rnd clips time
      in case targetClipAt (sequenceWith rnd clips) seekTime of
           None \<Rightarrow> None
         | Some targetClip \<Rightarrow>
             Some (targetClip, rnd (start targetClip + rnd (seekTime - sequenceStart targetClip))))"

text \<open>Lines 605 to 615: the same difference and sum, then the clamp to the trimmed range.\<close>

definition workerTargetWith ::
  "(real \<Rightarrow> real) \<Rightarrow> Clip list \<Rightarrow> real \<Rightarrow> (SequenceEntry \<times> real) option" where
  "workerTargetWith rnd clips requestedTime =
     (let clippedTime = max 0 (min requestedTime (totalDurationWith rnd clips));
          seq = sequenceWith rnd clips
      in if length seq = 0 then None
         else case targetClipAt seq clippedTime of
                None \<Rightarrow> None
              | Some targetClip \<Rightarrow>
                  (let unclampedLocalTime =
                         rnd (start targetClip + rnd (clippedTime - sequenceStart targetClip));
                       localTime = max (start targetClip) (min unclampedLocalTime (end' targetClip))
                   in Some (targetClip, localTime)))"

text \<open>
  Two untrimmed clips, of ten seconds and of the double nearest to three tenths of a second.
\<close>

definition shortTail :: "Clip list" where
  "shortTail =
     [\<lparr> id' = ''a'', url = ''blob:a'', name = ''a.mp4'', originalDuration = 10,
         start = 0, end' = 10, fps = 60, isSelected = False \<rparr>,
      \<lparr> id' = ''b'', url = ''blob:b'', name = ''b.mp4'', originalDuration = binary64 (3 / 10),
         start = 0, end' = binary64 (3 / 10), fps = 60, isSelected = False \<rparr>]"

section \<open>Timecode formatting\<close>

text \<open>
  \<^verbatim>\<open>src/utils.ts\<close>. \<^verbatim>\<open>Math.floor\<close> is \<^const>\<open>floor\<close>; \<^verbatim>\<open>Math.round\<close> rounds
  half up, that is \<open>\<lfloor>x + 1/2\<rfloor>\<close>; the remainder operator \<^verbatim>\<open>%\<close> truncates the
  quotient towards zero. \<^verbatim>\<open>toString\<close> of an integral number is its decimal numeral
  with a leading minus sign when negative (the exponent notation of numbers from
  \<open>10\<^sup>2\<^sup>1\<close> on is not modelled), and \<^verbatim>\<open>padStart(2, '0')\<close> fills up to two characters
  and never truncates.
\<close>

definition mathRound :: "real \<Rightarrow> int" where
  "mathRound x = \<lfloor>x + 1 / 2\<rfloor>"

definition jsRemainder :: "real \<Rightarrow> real \<Rightarrow> real" where
  "jsRemainder x y =
     x - y * of_int (if 0 \<le> x / y then \<lfloor>x / y\<rfloor> else \<lceil>x / y\<rceil>)"

definition digitChar :: "nat \<Rightarrow> char" where
  "digitChar n = ''0123456789'' ! n"

fun natToString :: "nat \<Rightarrow> string" where
  "natToString n =
     (if n < 10 then [digitChar n] else natToString (n div 10) @ [digitChar (n mod 10)])"

declare natToString.simps [simp del]

definition toString :: "int \<Rightarrow> string" where
  "toString i = (if i < 0 then ''-'' @ natToString (nat (- i)) else natToString (nat i))"

definition padStart :: "nat \<Rightarrow> char \<Rightarrow> string \<Rightarrow> string" where
  "padStart targetLength padChar s = replicate (targetLength - length s) padChar @ s"

definition formatTimecode :: "real \<Rightarrow> string" where
  "formatTimecode totalSeconds =
     (let seconds = \<lfloor>totalSeconds\<rfloor>;
          fractional = totalSeconds - of_int seconds;
          frames = mathRound (fractional * 60);
          sStr = padStart 2 CHR ''0'' (toString seconds);
          fStr = padStart 2 CHR ''0'' (toString frames)
      in sStr @ '':'' @ fStr)"

definition formatDurationDisplay :: "real \<Rightarrow> string" where
  "formatDurationDisplay totalSeconds =
     (let minutes = \<lfloor>totalSeconds / 60\<rfloor>;
          seconds = \<lfloor>jsRemainder totalSeconds 60\<rfloor>;
          fractional = totalSeconds - of_int \<lfloor>totalSeconds\<rfloor>;
          frames = mathRound (fractional * 60);
          mStr = padStart 2 CHR ''0'' (toString minutes);
          sStr = padStart 2 CHR ''0'' (toString seconds);
          fStr = padStart 2 CHR ''0'' (toString frames)
      in mStr @ '':'' @ sStr @ ''.'' @ fStr)"

section \<open>Trim operations\<close>

text \<open>
  \<^verbatim>\<open>ClipItem.tsx\<close>: the memoised \<^verbatim>\<open>fps\<close> and \<^verbatim>\<open>minDuration\<close>. A real number is
  always finite, so \<^verbatim>\<open>Number.isFinite(clip.fps) && clip.fps > 0\<close> is \<open>fps clip > 0\<close>.
\<close>

definition clipFps :: "'a Clip_scheme \<Rightarrow> real" where
  "clipFps clip = (if fps clip > 0 then fps clip else 60)"

definition minDuration :: "'a Clip_scheme \<Rightarrow> real" where
  "minDuration clip = max (1 / 10) (1 / clipFps clip)"

text \<open>
  \<^verbatim>\<open>handleTrimEnd\<close>: the Trim End button with the frame count of the input field
  (\<^verbatim>\<open>trimFrames || 0\<close> is \<open>trimFrames\<close> for a real number); the update
  \<^verbatim>\<open>{ end: newEnd }\<close> is applied to the clip.
\<close>

definition handleTrimEnd :: "real \<Rightarrow> Clip \<Rightarrow> Clip" where
  "handleTrimEnd trimFrames clip =
     (let frames = max 1 (of_int (mathRound trimFrames));
          trimAmount = frames / clipFps clip;
          newEnd = max (start clip + minDuration clip) (end' clip - trimAmount)
      in clip\<lparr>end' := newEnd\<rparr>)"

text \<open>
  \<^verbatim>\<open>getTimeFromClientX\<close>: the pointer position as a time on the clip's own axis, from the
  pointer's \<^verbatim>\<open>clientX\<close> and the track's bounding rectangle.
\<close>

definition getTimeFromClientX :: "real \<Rightarrow> real \<Rightarrow> real \<Rightarrow> 'a Clip_scheme \<Rightarrow> real" where
  "getTimeFromClientX clientX rectLeft rectWidth clip =
     (let pct = (if rectWidth > 0 then clamp ((clientX - rectLeft) / rectWidth) 0 1 else 0)
      in pct * originalDuration clip)"

datatype Edge = EdgeStart | EdgeEnd

text \<open>
  The \<^verbatim>\<open>onMove\<close> handler of \<^verbatim>\<open>beginTrim\<close> at pointer time \<open>t\<close>, with the update it
  schedules applied to the clip.
\<close>

definition beginTrim_onMove :: "Edge \<Rightarrow> real \<Rightarrow> Clip \<Rightarrow> Clip" where
  "beginTrim_onMove edge t clip =
     (let curStart = start clip;
          curEnd = end' clip;
          dur = originalDuration clip
      in if dur \<le> 0 then clip
         else (case edge of
                 EdgeStart \<Rightarrow> clip\<lparr>start := clamp t 0 (curEnd - minDuration clip)\<rparr>
               | EdgeEnd \<Rightarrow> clip\<lparr>end' := clamp t (curStart + minDuration clip) dur\<rparr>))"

text \<open>\<^verbatim>\<open>handleBatchTrim\<close> of the application: the Trim All action.\<close>

definition handleBatchTrim :: "Clip list \<Rightarrow> Clip list" where
  "handleBatchTrim prev =
     (let trimAmount = 18 / 60
      in map (\<lambda>c. c\<lparr>end' := max (start c + 1 / 10) (end' c - trimAmount)\<rparr>) prev)"

text \<open>
  A clip of three frames at 60 frames per second, read in full, and a clip at five frames
  per second.
\<close>

definition shortClip :: Clip where
  "shortClip = \<lparr> id' = ''s'', url = ''blob:s'', name = ''s.mp4'', originalDuration = 5 / 100,
                 start = 0, end' = 5 / 100, fps = 60, isSelected = False \<rparr>"

definition slowClip :: Clip where
  "slowClip = \<lparr> id' = ''w'', url = ''blob:w'', name = ''w.mp4'', originalDuration = 3 / 10,
                start = 0, end' = 3 / 10, fps = 5, isSelected = False \<rparr>"

section \<open>The player\<close>

text \<open>
  The state of the \<^verbatim>\<open>Player\<close> component that the playback operations read and write:
  its properties \<^verbatim>\<open>clips\<close> and \<^verbatim>\<open>activeClipId\<close>, the visible video element (absent
  while \<^verbatim>\<open>videoRef.current\<close> is null) with its \<^verbatim>\<open>src\<close> attribute and current time, the
  React state and the refs of the preview. The refs that mirror a derived value
  (\<^verbatim>\<open>totalDurationRef\<close>, \<^verbatim>\<open>activeClipIdRef\<close>) are read as the value they mirror.
  \<open>currentPlaybackTime\<close> is the application's state fed by \<^verbatim>\<open>onTimeUpdate\<close>;
  \<open>previewRaf\<close> says that an animation frame callback of the preview is scheduled.
\<close>

record Video =
  srcAttr :: "string option"
  currentTime :: real

record Restore =
  src :: "string option"
  localTime :: real
  globalTime :: real

record Player =
  clips :: "Clip list"
  activeClipId :: "string option"
  video :: "Video option"
  isPlaying :: bool
  isScrubbing :: bool
  globalTimeDisplay :: real
  currentPlaybackTime :: real
  isPreviewing :: bool
  previewRestore :: "Restore option"
  previewRaf :: bool
  previewPendingTime :: "real option"

text \<open>\<^verbatim>\<open>Array.prototype.findIndex\<close>, with \<open>None\<close> for \<^verbatim>\<open>-1\<close>.\<close>

fun findIndex :: "('a \<Rightarrow> bool) \<Rightarrow> 'a list \<Rightarrow> nat option" where
  "findIndex P [] = None"
| "findIndex P (x # xs) = (if P x then Some 0 else map_option Suc (findIndex P xs))"

definition activeClipIndex :: "Player \<Rightarrow> nat option" where
  "activeClipIndex s = findIndex (\<lambda>c. Some (id' c) = activeClipId s) (sequence (clips s))"

definition activeClip :: "Player \<Rightarrow> SequenceEntry option" where
  "activeClip s =
     (case activeClipIndex s of None \<Rightarrow> None | Some i \<Rightarrow> Some (sequence (clips s) ! i))"

definition hasClips :: "Player \<Rightarrow> bool" where
  "hasClips s \<longleftrightarrow> length (clips s) > 0 \<and> activeClip s \<noteq> None"

text \<open>
  The effect that follows a change of the active clip: outside a preview, when the
  element shows another source, it is given the active clip's source and trimmed start.
\<close>

definition syncActiveClip :: "Player \<Rightarrow> Player" where
  "syncActiveClip s =
     (if isPreviewing s then s
      else case activeClip s of
             None \<Rightarrow> s
           | Some ac \<Rightarrow>
               (case video s of
                  None \<Rightarrow> s
                | Some v \<Rightarrow>
                    if srcAttr v \<noteq> Some (url ac)
                    then s\<lparr>video := Some \<lparr>srcAttr = Some (url ac), currentTime = start ac\<rparr>\<rparr>
                    else s))"

text \<open>
  In JavaScript a property read or write on \<^verbatim>\<open>undefined\<close> or \<^verbatim>\<open>null\<close> raises a
  \<^verbatim>\<open>TypeError\<close>. \<open>deref\<close> is such an access: the seek below reaches the fields of its
  target clip and of the video element through it, so that the guards
  \<^verbatim>\<open>if (targetClip)\<close> and \<^verbatim>\<open>if (videoRef.current)\<close> are what keeps it from raising.
  (An assignment of a non-finite number to \<^verbatim>\<open>currentTime\<close> would raise too; every real
  number is finite.)
\<close>

datatype JsError = TypeError

definition deref :: "'a option \<Rightarrow> JsError + 'a" where
  "deref x = (case x of None \<Rightarrow> Inl TypeError | Some v \<Rightarrow> Inr v)"

text \<open>
  \<^verbatim>\<open>if (videoRef.current) { videoRef.current.currentTime = t; onTimeUpdate(t); }\<close>
\<close>

definition applySeek :: "real \<Rightarrow> Player \<Rightarrow> JsError + Player" where
  "applySeek t s =
     (if video s \<noteq> None
      then (case deref (video s) of
              Inl err \<Rightarrow> Inl err
            | Inr v \<Rightarrow> Inr (s\<lparr>video := Some (v\<lparr>currentTime := t\<rparr>), currentPlaybackTime := t\<rparr>))
      else Inr s)"

text \<open>
  \<^verbatim>\<open>seekToGlobalTime\<close>. When the target is another clip the handler reports the new
  active clip and defers the seek by a timeout; the state returned is the one after that
  timeout, with the effect of the change of clip run in between.
\<close>

definition seekToGlobalTime :: "real \<Rightarrow> Player \<Rightarrow> JsError + Player" where
  "seekToGlobalTime time s =
     (let seekTime = clampSeekTime (clips s) time;
          s1 = s\<lparr>globalTimeDisplay := seekTime\<rparr>;
          target = commitSeekTarget (clips s) time
      in if target \<noteq> None
         then (case deref target of
                 Inl err \<Rightarrow> Inl err
               | Inr (targetClip, localSeekTime) \<Rightarrow>
                   if Some (id' targetClip) \<noteq> activeClipId s
                   then applySeek localSeekTime
                          (syncActiveClip (s1\<lparr>activeClipId := Some (id' targetClip)\<rparr>))
                   else applySeek localSeekTime s1)
         else Inr s1)"

text \<open>
  \<^verbatim>\<open>handleTimeUpdate\<close>, the handler of the element's \<^verbatim>\<open>timeupdate\<close> event. The
  \<^verbatim>\<open>vid.play()\<close> at the end of the advance makes the element report that it plays.
\<close>

definition handleTimeUpdate :: "Player \<Rightarrow> Player" where
  "handleTimeUpdate s =
     (if isPreviewing s then s
      else case video s of
             None \<Rightarrow> s
           | Some vid \<Rightarrow>
               (case activeClipIndex s of
                  None \<Rightarrow> s
                | Some i \<Rightarrow>
                    (let sq = sequence (clips s);
                         ac = sq ! i;
                         currentLocalTime = currentTime vid;
                         currentGlobalTime = sequenceStart ac + (currentLocalTime - start ac);
                         s1 = (if \<not> isScrubbing s then s\<lparr>globalTimeDisplay := currentGlobalTime\<rparr> else s);
                         s2 = s1\<lparr>currentPlaybackTime := currentLocalTime\<rparr>
                     in if currentLocalTime \<ge> end' ac \<and> \<not> isScrubbing s
                        then (let nextIndex = (i + 1) mod length sq;
                                  nextClip = sq ! nextIndex
                              in s2\<lparr>activeClipId := Some (id' nextClip),
                                    video := Some \<lparr>srcAttr = Some (url nextClip),
                                                   currentTime = start nextClip\<rparr>,
                                    isPlaying := True\<rparr>)
                        else s2)))"

text \<open>
  \<^verbatim>\<open>setVideoSrcAndTime\<close>: the element ends up on the given source at the given time
  (at once, or when the metadata of a new source has loaded).
\<close>

definition setVideoSrcAndTime :: "string \<Rightarrow> real \<Rightarrow> Player \<Rightarrow> Player" where
  "setVideoSrcAndTime u t s =
     (case video s of
        None \<Rightarrow> s
      | Some v \<Rightarrow> s\<lparr>video := Some \<lparr>srcAttr = Some u, currentTime = t\<rparr>\<rparr>)"

text \<open>
  \<^verbatim>\<open>endPreview\<close>. The source restored is the committed clip's when the active clip is in
  the sequence, and the snapshot's otherwise; an empty string is falsy in
  \<^verbatim>\<open>if (src)\<close>.
\<close>

definition endPreview :: "Player \<Rightarrow> Player" where
  "endPreview s =
     (if \<not> isPreviewing s then s
      else (let s1 = s\<lparr>isPreviewing := False, previewRaf := False, previewPendingTime := None\<rparr>;
                restore = previewRestore s1;
                s2 = s1\<lparr>previewRestore := None\<rparr>
            in case restore of
                 None \<Rightarrow> s2
               | Some r \<Rightarrow>
                   (case video s2 of
                      None \<Rightarrow> s2
                    | Some v \<Rightarrow>
                        (let committed = List.find (\<lambda>c. Some (id' c) = activeClipId s2) (sequence (clips s2));
                             src0 = (case committed of Some c \<Rightarrow> Some (url c) | None \<Rightarrow> src r);
                             s3 = (case src0 of
                                     None \<Rightarrow> s2
                                   | Some u \<Rightarrow> if u = [] then s2 else setVideoSrcAndTime u (localTime r) s2)
                         in s3\<lparr>globalTimeDisplay := globalTime r\<rparr>))))"

text \<open>\<^verbatim>\<open>previewAtGlobalTime\<close>, up to the scheduling of the animation frame callback.\<close>

definition previewAtGlobalTime :: "real \<Rightarrow> Player \<Rightarrow> Player" where
  "previewAtGlobalTime time s =
     (if \<not> hasClips s then s
      else if isPlaying s then s
      else case video s of
             None \<Rightarrow> s
           | Some vid \<Rightarrow>
               (let seekTime = max 0 (min time (totalDuration (clips s)));
                    s1 = s\<lparr>previewPendingTime := Some seekTime\<rparr>;
                    s2 = (if \<not> isPreviewing s1
                          then s1\<lparr>isPreviewing := True,
                                  previewRestore := Some \<lparr>src = srcAttr vid,
                                                          localTime = currentTime vid,
                                                          globalTime = globalTimeDisplay s\<rparr>\<rparr>
                          else s1);
                    s3 = s2\<lparr>globalTimeDisplay := seekTime\<rparr>
                in if \<not> previewRaf s3 then s3\<lparr>previewRaf := True\<rparr> else s3))"

text \<open>
  The animation frame callback scheduled by \<^verbatim>\<open>previewAtGlobalTime\<close>: it seeks the
  visible element to the pending time, switching its source when needed.
\<close>

definition previewFrame :: "Player \<Rightarrow> Player" where
  "previewFrame s =
     (if \<not> previewRaf s then s
      else (let s1 = s\<lparr>previewRaf := False\<rparr>
            in case previewPendingTime s1 of
                 None \<Rightarrow> s1
               | Some pendingTime \<Rightarrow>
                   (case targetClipAt (sequence (clips s1)) pendingTime of
                      None \<Rightarrow> s1
                    | Some targetClip \<Rightarrow>
                        (let unclampedLocalTime = start targetClip + (pendingTime - sequenceStart targetClip);
                             localTime0 = max (start targetClip) (min unclampedLocalTime (end' targetClip))
                         in case video s1 of
                              None \<Rightarrow> s1
                            | Some v \<Rightarrow>
                                s1\<lparr>video := Some \<lparr>srcAttr = Some (url targetClip),
                                                    currentTime = localTime0\<rparr>\<rparr>))))"

text \<open>\<^verbatim>\<open>commitSeekToGlobalTime\<close> of the imperative handle.\<close>

definition commitSeekToGlobalTime :: "real \<Rightarrow> Player \<Rightarrow> JsError + Player" where
  "commitSeekToGlobalTime time s = seekToGlobalTime time (endPreview s)"

text \<open>What happens between the first preview request and the end of the preview.\<close>

datatype PreviewEvent = PreviewAt real | Frame

fun previewEvent :: "Player \<Rightarrow> PreviewEvent \<Rightarrow> Player" where
  "previewEvent s (PreviewAt time) = previewAtGlobalTime time s"
| "previewEvent s Frame = previewFrame s"

text \<open>The visible element shows the active clip, as the effect above leaves it.\<close>

definition showsActiveClip :: "Player \<Rightarrow> bool" where
  "showsActiveClip s =
     (case activeClip s of
        None \<Rightarrow> True
      | Some ac \<Rightarrow>
          (case video s of
             None \<Rightarrow> True
           | Some v \<Rightarrow> srcAttr v = Some (url ac) \<and> url ac \<noteq> []))"

text \<open>
  The environment of a playback pass: the playing element reaches the trimmed end of the
  active clip, where its next \<^verbatim>\<open>timeupdate\<close> event is handled.
\<close>

definition playToEnd :: "Player \<Rightarrow> Player" where
  "playToEnd s =
     (case activeClip s of
        None \<Rightarrow> s
      | Some ac \<Rightarrow>
          (case video s of
             None \<Rightarrow> s
           | Some v \<Rightarrow> s\<lparr>video := Some (v\<lparr>currentTime := end' ac\<rparr>)\<rparr>))"

definition advance :: "Player \<Rightarrow> Player" where
  "advance s = handleTimeUpdate (playToEnd s)"

text \<open>
  A player whose clips have all been deleted after the display had reached five seconds,
  and a paused player on the first of the three clips.
\<close>

definition emptiedPlayer :: Player where
  "emptiedPlayer = \<lparr> clips = [], activeClipId = None, video = None, isPlaying = False,
                     isScrubbing = False, globalTimeDisplay = 5, currentPlaybackTime = 5,
                     isPreviewing = False, previewRestore = None, previewRaf = False,
                     previewPendingTime = None \<rparr>"

definition pausedPlayer :: Player where
  "pausedPlayer = \<lparr> clips = threeClips, activeClipId = Some ''a'',
                    video = Some \<lparr>srcAttr = Some ''blob:a'', currentTime = 4\<rparr>,
                    isPlaying = False, isScrubbing = False, globalTimeDisplay = 4,
                    currentPlaybackTime = 4, isPreviewing = False, previewRestore = None,
                    previewRaf = False, previewPendingTime = None \<rparr>"

text \<open>A playing player whose element has reached the trimmed end of the first clip.\<close>

definition endOfFirstClip :: Player where
  "endOfFirstClip = \<lparr> clips = threeClips, activeClipId = Some ''a'',
                      video = Some \<lparr>srcAttr = Some ''blob:a'', currentTime = 10\<rparr>,
                      isPlaying = True, isScrubbing = False, globalTimeDisplay = 10,
                      currentPlaybackTime = 10, isPreviewing = False, previewRestore = None,
                      previewRaf = False, previewPendingTime = None \<rparr>"

text \<open>
  What holds of a state \<open>x\<close> between the first accepted preview request in state \<open>s\<close>,
  which took the snapshot \<open>snap\<close>, and the end of the preview.
\<close>

definition previewing :: "Player \<Rightarrow> Restore \<Rightarrow> Player \<Rightarrow> bool" where
  "previewing s snap x \<longleftrightarrow>
     isPreviewing x \<and> previewRestore x = Some snap \<and> clips x = clips s
     \<and> activeClipId x = activeClipId s \<and> video x \<noteq> None \<and> isPlaying x = isPlaying s"

section \<open>The timeline preview pipeline\<close>

text \<open>
  The refs that \<^verbatim>\<open>updateTimelinePreviewFromClientX\<close> and its worker share, the worker's
  local variables \<^verbatim>\<open>workerToken\<close> and \<^verbatim>\<open>idleFrames\<close>, the source of the hidden
  element, and the frames drawn on the canvas so far, oldest first, each as the source and
  the local time it shows. The worker is an asynchronous function: its code runs without
  interruption from one \<^verbatim>\<open>await\<close> to the next, and \<open>workerPhase\<close> says where it is
  suspended: in the wait of an idle pass, or in the waits of a pass that is about to draw
  the given source at the given local time. The position and size of the floating
  thumbnail are display state and left out.
\<close>

datatype WorkerPhase = NoWorker | Polling | Capturing string real

record Pipeline =
  pipelineClips :: "Clip list"
  pipelineHasClips :: bool
  areControlsVisible :: bool
  timelinePreviewToken :: nat
  timelinePreviewPending :: "(real \<times> real) option"
  timelinePreviewCaptureTime :: "real option"
  timelinePreviewWorkerRunning :: bool
  workerToken :: nat
  idleFrames :: nat
  workerPhase :: WorkerPhase
  captureSrc :: "string option"
  thumbnails :: "(string \<times> real) list"

text \<open>
  What the worker finds when it runs: whether the hidden element and the canvas are
  mounted, whether the canvas gives a drawing context, whether the element has metadata
  after the wait, and whether \<^verbatim>\<open>drawImage\<close> succeeds.
\<close>

record Env =
  surfacesMounted :: bool
  contextAvailable :: bool
  metadataReady :: bool
  drawSucceeds :: bool

text \<open>The \<^verbatim>\<open>finally\<close> block of the worker.\<close>

definition exitWorker :: "Pipeline \<Rightarrow> Pipeline" where
  "exitWorker s = s\<lparr>timelinePreviewWorkerRunning := False, workerPhase := NoWorker\<rparr>"

text \<open>The pass that finds no requested time: it counts, and gives up after thirty.\<close>

definition idleIteration :: "Pipeline \<Rightarrow> Pipeline" where
  "idleIteration s =
     (let n = idleFrames s + 1
      in if n > 30 then exitWorker (s\<lparr>idleFrames := n\<rparr>)
         else s\<lparr>idleFrames := n, workerPhase := Polling\<rparr>)"

text \<open>
  The worker from the head of its loop to its next \<^verbatim>\<open>await\<close>. A \<^verbatim>\<open>continue\<close> after
  the requested time has been taken returns to the head at once, where the cell is still
  empty, so it is the idle pass.
\<close>

definition loopHead :: "Env \<Rightarrow> Pipeline \<Rightarrow> Pipeline" where
  "loopHead env s =
     (if workerToken s \<noteq> timelinePreviewToken s then exitWorker s
      else case timelinePreviewCaptureTime s of
             None \<Rightarrow> idleIteration s
           | Some requestedTime \<Rightarrow>
               (let s1 = s\<lparr>idleFrames := 0\<rparr>
                in if \<not> surfacesMounted env then s1\<lparr>workerPhase := Polling\<rparr>
                   else (let s2 = s1\<lparr>timelinePreviewCaptureTime := None\<rparr>
                         in if \<not> contextAvailable env then idleIteration s2
                            else case workerTarget (pipelineClips s2) requestedTime of
                                   None \<Rightarrow> idleIteration s2
                                 | Some (targetClip, localTime0) \<Rightarrow>
                                     s2\<lparr>captureSrc := Some (url targetClip),
                                        workerPhase := Capturing (url targetClip) localTime0\<rparr>)))"

text \<open>
  The worker resumes from its wait and runs to the next one: from the wait of an idle pass
  to the head of the loop; from the waits of a capturing pass through the token checks
  and the drawing to the head of the loop.
\<close>

definition workerResume :: "Env \<Rightarrow> Pipeline \<Rightarrow> Pipeline" where
  "workerResume env s =
     (case workerPhase s of
        NoWorker \<Rightarrow> s
      | Polling \<Rightarrow> loopHead env s
      | Capturing u t \<Rightarrow>
          if workerToken s \<noteq> timelinePreviewToken s then exitWorker s
          else if \<not> metadataReady env then loopHead env s
          else loopHead env
                 (if drawSucceeds env then s\<lparr>thumbnails := thumbnails s @ [(u, t)]\<rparr> else s))"

text \<open>
  The pointer position as a time on the global timeline, lines 507 and 508, and
  \<^verbatim>\<open>updateTimelinePreviewFromClientX\<close>: every request overwrites the two cells; a request
  that finds no worker starts one, which runs at once to its first wait.
\<close>

definition pointerSeekTime :: "real \<Rightarrow> real \<Rightarrow> real \<Rightarrow> Clip list \<Rightarrow> real" where
  "pointerSeekTime clientX rectLeft rectWidth cl =
     (let x = clamp (clientX - rectLeft) 0 rectWidth
      in if rectWidth > 0 then (x / rectWidth) * totalDuration cl else 0)"

definition updateTimelinePreviewFromClientX ::
    "Env \<Rightarrow> real \<Rightarrow> real \<Rightarrow> Pipeline \<Rightarrow> real \<Rightarrow> Pipeline" where
  "updateTimelinePreviewFromClientX env rectLeft rectWidth s clientX =
     (if \<not> pipelineHasClips s then s
      else if \<not> areControlsVisible s then s
      else if rectWidth \<le> 0 then s
      else (let seekTime = pointerSeekTime clientX rectLeft rectWidth (pipelineClips s);
                leftPx = clamp (clientX - rectLeft) 0 rectWidth;
                s1 = s\<lparr>timelinePreviewPending := Some (seekTime, leftPx),
                       timelinePreviewCaptureTime := Some seekTime\<rparr>
            in if timelinePreviewWorkerRunning s1 then s1
               else loopHead env
                      (s1\<lparr>timelinePreviewWorkerRunning := True,
                          workerToken := timelinePreviewToken s1,
                          idleFrames := 0\<rparr>)))"

definition hideTimelinePreview :: "Pipeline \<Rightarrow> Pipeline" where
  "hideTimelinePreview s =
     s\<lparr>timelinePreviewPending := None, timelinePreviewCaptureTime := None,
       timelinePreviewToken := timelinePreviewToken s + 1\<rparr>"

text \<open>The frame the worker draws for a requested time.\<close>

definition thumbnailFor :: "Clip list \<Rightarrow> real \<Rightarrow> (string \<times> real) list" where
  "thumbnailFor cl requestedTime =
     (case workerTarget cl requestedTime of
        None \<Rightarrow> []
      | Some (targetClip, localTime0) \<Rightarrow> [(url targetClip, localTime0)])"

text \<open>
  A state differs from \<open>s\<close> in the two request cells only, the worker's pending cell being
  filled; and a worker that is suspended with nothing requested.
\<close>

definition requested :: "Pipeline \<Rightarrow> real \<Rightarrow> Pipeline \<Rightarrow> bool" where
  "requested s t q \<longleftrightarrow>
     (\<exists>p. q = s\<lparr>timelinePreviewPending := p, timelinePreviewCaptureTime := Some t\<rparr>)"

definition idling :: "Pipeline \<Rightarrow> bool" where
  "idling q \<longleftrightarrow>
     timelinePreviewCaptureTime q = None \<and> (workerPhase q = Polling \<or> workerPhase q = NoWorker)"

text \<open>An environment in which every step of the worker succeeds.\<close>

definition goodEnv :: Env where
  "goodEnv = \<lparr> surfacesMounted = True, contextAvailable = True, metadataReady = True,
               drawSucceeds = True \<rparr>"

text \<open>
  A pipeline over the three clips with no worker yet, and one whose worker is in the waits
  of a pass that will draw the first clip at four seconds.
\<close>

definition coldPipeline :: Pipeline where
  "coldPipeline = \<lparr> pipelineClips = threeClips, pipelineHasClips = True, areControlsVisible = True,
                    timelinePreviewToken = 0, timelinePreviewPending = None,
                    timelinePreviewCaptureTime = None, timelinePreviewWorkerRunning = False,
                    workerToken = 0, idleFrames = 0, workerPhase = NoWorker,
                    captureSrc = None, thumbnails = [] \<rparr>"

definition busyPipeline :: Pipeline where
  "busyPipeline = coldPipeline\<lparr> timelinePreviewWorkerRunning := True,
                                workerPhase := Capturing ''blob:a'' 4,
                                captureSrc := Some ''blob:a'' \<rparr>"

text \<open>
  The environment of a first pointer entry: the canvas is mounted only while the floating
  thumbnail is visible, so the worker started by the first request does not find it yet.
\<close>

definition unmountedEnv :: Env where
  "unmountedEnv = \<lparr> surfacesMounted = False, contextAvailable = True, metadataReady = True,
                    drawSucceeds = True \<rparr>"
section \<open>The derived sequence\<close>

lemma length_sequenceFrom [simp]: "length (sequenceFrom a cs) = length cs"
  by (induction cs arbitrary: a) (simp_all add: Let_def)

lemma sequenceFrom_eq_Nil [simp]: "sequenceFrom a cs = [] \<longleftrightarrow> cs = []"
  by (cases cs) (simp_all add: Let_def)






section \<open>Time mapping\<close>

lemma window_exists:
  "a \<le> t \<Longrightarrow> cs \<noteq> [] \<Longrightarrow> t < sequenceEnd (last (sequenceFrom a cs)) \<Longrightarrow>
   \<exists>c \<in> set (sequenceFrom a cs). inWindow t c"
proof (induction cs arbitrary: a)
  case Nil
  then show ?case by simp
next
  case (Cons c cs)
  show ?case
  proof (cases "t < a + (end' c - start c)")
    case True
    then show ?thesis using Cons.prems by (simp add: Let_def inWindow_def)
  next
    case False
    show ?thesis
    proof (cases "cs = []")
      case True
      then show ?thesis using Cons.prems False by (simp add: Let_def)
    next
      case ne: False
      have "t < sequenceEnd (last (sequenceFrom (a + (end' c - start c)) cs))"
        using Cons.prems ne by (simp add: Let_def)
      moreover have "a + (end' c - start c) \<le> t" using False by simp
      ultimately have "\<exists>c \<in> set (sequenceFrom (a + (end' c - start c)) cs). inWindow t c"
        using Cons.IH ne by blast
      then show ?thesis by (auto simp add: Let_def)
    qed
  qed
qed

lemma sequenceFrom_entry_window:
  "e \<in> set (sequenceFrom a cs) \<Longrightarrow> sequenceEnd e = sequenceStart e + (end' e - start e)"
  by (induction cs arbitrary: a) (auto simp add: Let_def)

lemma sequenceFrom_bounds:
  "\<forall>c \<in> set cs. start c \<le> end' c \<Longrightarrow> e \<in> set (sequenceFrom a cs) \<Longrightarrow>
   a \<le> sequenceStart e \<and> start e \<le> end' e
   \<and> sequenceEnd e \<le> sequenceEnd (last (sequenceFrom a cs))"
proof (induction cs arbitrary: a e)
  case Nil
  then show ?case by simp
next
  case (Cons c cs)
  let ?a' = "a + (end' c - start c)"
  have a': "a \<le> ?a'" using Cons.prems(1) by simp
  show ?case
  proof (cases "cs = []")
    case True
    then show ?thesis using Cons.prems by (auto simp add: Let_def)
  next
    case ne: False
    then obtain l where l: "l \<in> set (sequenceFrom ?a' cs)" "l = last (sequenceFrom ?a' cs)"
      by (metis last_in_set sequenceFrom_eq_Nil)
    from Cons.prems(1) have v: "\<forall>c \<in> set cs. start c \<le> end' c" by simp
    have lb: "?a' \<le> sequenceStart l \<and> start l \<le> end' l" using Cons.IH[OF v l(1)] by simp
    have lw: "sequenceEnd l = sequenceStart l + (end' l - start l)"
      using l sequenceFrom_entry_window by blast
    from Cons.prems(2) consider "e = hd (sequenceFrom a (c # cs))" | "e \<in> set (sequenceFrom ?a' cs)"
      by (auto simp add: Let_def)
    then show ?thesis
    proof cases
      case 1
      then show ?thesis using ne lb lw l Cons.prems(1) by (simp add: Let_def)
    next
      case 2
      from Cons.IH[OF v 2] show ?thesis using a' ne by (simp add: Let_def)
    qed
  qed
qed

lemma totalDuration_last:
  "cs \<noteq> [] \<Longrightarrow> totalDuration cs = sequenceEnd (last (sequence cs))"
  by (simp add: totalDuration_def totalDurationOf_def sequence_def last_conv_nth)

lemma totalDuration_nonneg:
  assumes "\<forall>c \<in> set cs. start c \<le> end' c"
  shows "0 \<le> totalDuration cs"
proof (cases "cs = []")
  case True
  then show ?thesis by (simp add: totalDuration_def totalDurationOf_def sequence_def)
next
  case False
  then have "last (sequence cs) \<in> set (sequence cs)" by (simp add: sequence_def)
  from sequenceFrom_bounds[OF assms this[unfolded sequence_def]]
  have "0 \<le> sequenceStart (last (sequence cs)) \<and> start (last (sequence cs)) \<le> end' (last (sequence cs))"
    by (simp add: sequence_def)
  moreover have "sequenceEnd (last (sequence cs)) = sequenceStart (last (sequence cs)) + (end' (last (sequence cs)) - start (last (sequence cs)))"
    using \<open>last (sequence cs) \<in> set (sequence cs)\<close> sequenceFrom_entry_window sequence_def by metis
  ultimately show ?thesis using False by (simp add: totalDuration_last)
qed

lemma targetClipAt_found:
  "List.find (inWindow t) sq = Some e \<Longrightarrow> targetClipAt sq t = Some e"
  by (simp add: targetClipAt_def)

lemma targetClipAt_fallback:
  "List.find (inWindow t) sq = None \<Longrightarrow> sq \<noteq> [] \<Longrightarrow> targetClipAt sq t = Some (last sq)"
  by (simp add: targetClipAt_def lastEntry_def last_conv_nth)

lemma window_unique:
  "\<forall>c \<in> set cs. start c \<le> end' c \<Longrightarrow> c \<in> set (sequenceFrom a cs) \<Longrightarrow> d \<in> set (sequenceFrom a cs) \<Longrightarrow>
   inWindow t c \<Longrightarrow> inWindow t d \<Longrightarrow> c = d"
proof (induction cs arbitrary: a)
  case Nil
  then show ?case by simp
next
  case (Cons x xs)
  let ?a' = "a + (end' x - start x)"
  let ?h = "hd (sequenceFrom a (x # xs))"
  from Cons.prems(1) have v: "\<forall>c \<in> set xs. start c \<le> end' c" by simp
  have hE: "sequenceEnd ?h = ?a'" by (simp add: Let_def)
  have sf: "sequenceFrom a (x # xs) = ?h # sequenceFrom ?a' xs" by (simp add: Let_def)
  have apart: "\<not> (inWindow t ?h \<and> inWindow t r)" if "r \<in> set (sequenceFrom ?a' xs)" for r
  proof -
    from sequenceFrom_bounds[OF v that] have "?a' \<le> sequenceStart r" by simp
    then show ?thesis using hE by (auto simp add: inWindow_def)
  qed
  from Cons.prems(2) sf have c: "c = ?h \<or> c \<in> set (sequenceFrom ?a' xs)" by (metis set_ConsD)
  from Cons.prems(3) sf have d: "d = ?h \<or> d \<in> set (sequenceFrom ?a' xs)" by (metis set_ConsD)
  from c d show ?case
    using apart Cons.prems(4,5) Cons.IH[OF v] by blast
qed

lemma threeClips_seek_12: "commitSeekTarget threeClips 12 = Some (sequence threeClips ! 1, 2)"
  by (simp add: commitSeekTarget_def clampSeekTime_def totalDuration_def totalDurationOf_def
      targetClipAt_def inWindow_def sequence_def threeClips_def)

lemma threeClips_seek_23: "commitSeekTarget threeClips 23 = Some (sequence threeClips ! 2, end' (threeClips ! 2))"
  by (simp add: commitSeekTarget_def clampSeekTime_def totalDuration_def totalDurationOf_def
      targetClipAt_def inWindow_def lastEntry_def sequence_def threeClips_def)

lemma threeClips_valid: "threeClips \<noteq> [] \<and> (\<forall>c \<in> set threeClips. start c \<le> end' c)"
  by (simp add: threeClips_def)

lemma threeClips_total: "totalDuration threeClips = 23"
  by (simp add: threeClips_def totalDuration_def totalDurationOf_def sequence_def)

text \<open>
  In exact arithmetic, for a non-empty list of clips with \<open>start \<le> end\<close>, a commit seek
  clamps the request to the range from zero to the total duration, selects the one entry
  whose half-open window holds the clamped time, falls back to the last entry when no window
  does (in particular for requests at or beyond the total duration), and its local time
  \<open>start + (t - sequenceStart)\<close>, to which the source applies no clamp, equals that value
  clamped to the entry's trimmed range; the preview worker's mapping, which clamps
  explicitly, agrees with it. For the three clips of 10, 5 and 8 seconds, time 12 maps to
  the second clip at local time 2 and time 23 to the third clip at its trimmed end.
\<close>

lemma commitSeekTarget_exact:
  assumes ne: "cs \<noteq> []" and valid: "\<forall>c \<in> set cs. start c \<le> end' c"
  shows "(\<exists>e lt. commitSeekTarget cs time = Some (e, lt)
           \<and> clampSeekTime cs time
               = (if time < 0 then 0 else if totalDuration cs < time then totalDuration cs else time)
           \<and> 0 \<le> clampSeekTime cs time \<and> clampSeekTime cs time \<le> totalDuration cs
           \<and> e \<in> set (sequence cs)
           \<and> (\<forall>c \<in> set (sequence cs). inWindow (clampSeekTime cs time) c \<longrightarrow> c = e)
           \<and> ((\<forall>c \<in> set (sequence cs). \<not> inWindow (clampSeekTime cs time) c)
                 \<longrightarrow> e = last (sequence cs))
           \<and> (totalDuration cs \<le> time \<longrightarrow> e = last (sequence cs))
           \<and> lt = max (start e) (min (start e + (clampSeekTime cs time - sequenceStart e)) (end' e))
           \<and> workerTarget cs time = Some (e, lt))
         \<and> commitSeekTarget threeClips 12 = Some (sequence threeClips ! 1, 2)
         \<and> commitSeekTarget threeClips 23 = Some (sequence threeClips ! 2, end' (threeClips ! 2))"
proof -
  let ?sq = "sequence cs"
  let ?st = "clampSeekTime cs time"
  have tot: "0 \<le> totalDuration cs" using valid by (rule totalDuration_nonneg)
  have st_eq: "?st = (if time < 0 then 0 else if totalDuration cs < time then totalDuration cs else time)"
    using tot by (simp add: clampSeekTime_def)
  have st_lo: "0 \<le> ?st" and st_hi: "?st \<le> totalDuration cs"
    using tot by (simp_all add: clampSeekTime_def)
  have sqne: "?sq \<noteq> []" using ne by (simp add: sequence_def)
  have lastE: "sequenceEnd (last ?sq) = totalDuration cs"
    using ne by (simp add: totalDuration_last)
  have inB: "sequenceEnd c \<le> totalDuration cs \<and> start c \<le> end' c
             \<and> sequenceEnd c = sequenceStart c + (end' c - start c)" if "c \<in> set ?sq" for c
    using sequenceFrom_bounds[OF valid that[unfolded sequence_def]]
          sequenceFrom_entry_window[OF that[unfolded sequence_def]] lastE
    by (simp add: sequence_def)
  have wt: "workerTarget cs time =
              (case targetClipAt ?sq ?st of None \<Rightarrow> None
               | Some c \<Rightarrow> Some (c, max (start c) (min (start c + (?st - sequenceStart c)) (end' c))))"
    using sqne by (simp add: workerTarget_def clampSeekTime_def Let_def split: option.split)
  have ct: "commitSeekTarget cs time =
              (case targetClipAt ?sq ?st of None \<Rightarrow> None
               | Some c \<Rightarrow> Some (c, start c + (?st - sequenceStart c)))"
    by (simp add: commitSeekTarget_def Let_def split: option.split)
  have "\<exists>e lt. commitSeekTarget cs time = Some (e, lt)
           \<and> clampSeekTime cs time
               = (if time < 0 then 0 else if totalDuration cs < time then totalDuration cs else time)
           \<and> 0 \<le> clampSeekTime cs time \<and> clampSeekTime cs time \<le> totalDuration cs
           \<and> e \<in> set (sequence cs)
           \<and> (\<forall>c \<in> set (sequence cs). inWindow (clampSeekTime cs time) c \<longrightarrow> c = e)
           \<and> ((\<forall>c \<in> set (sequence cs). \<not> inWindow (clampSeekTime cs time) c)
                 \<longrightarrow> e = last (sequence cs))
           \<and> (totalDuration cs \<le> time \<longrightarrow> e = last (sequence cs))
           \<and> lt = max (start e) (min (start e + (clampSeekTime cs time - sequenceStart e)) (end' e))
           \<and> workerTarget cs time = Some (e, lt)"
  proof (cases "List.find (inWindow ?st) ?sq")
    case None
    then have nowin: "\<forall>c \<in> set ?sq. \<not> inWindow ?st c" by (simp add: find_None_iff)
    have tgt: "targetClipAt ?sq ?st = Some (last ?sq)"
      using None sqne by (rule targetClipAt_fallback)
    have "\<not> ?st < totalDuration cs"
    proof
      assume "?st < totalDuration cs"
      then have "?st < sequenceEnd (last (sequenceFrom 0 cs))"
        using lastE by (simp add: sequence_def)
      from window_exists[OF st_lo ne this] nowin show False by (simp add: sequence_def)
    qed
    then have st_tot: "?st = totalDuration cs" using st_hi by simp
    have lin: "last ?sq \<in> set ?sq" using sqne by simp
    have "start (last ?sq) + (?st - sequenceStart (last ?sq)) = end' (last ?sq)"
      using inB[OF lin] st_tot lastE by simp
    moreover have "start (last ?sq) \<le> end' (last ?sq)" using inB[OF lin] by simp
    ultimately have lt: "start (last ?sq) + (?st - sequenceStart (last ?sq))
        = max (start (last ?sq)) (min (start (last ?sq) + (?st - sequenceStart (last ?sq))) (end' (last ?sq)))"
      by simp
    have c1: "commitSeekTarget cs time = Some (last ?sq, start (last ?sq) + (?st - sequenceStart (last ?sq)))"
      using tgt ct by simp
    have w1: "workerTarget cs time = Some (last ?sq, start (last ?sq) + (?st - sequenceStart (last ?sq)))"
      using tgt wt lt by simp
    from c1 st_eq st_lo st_hi lin nowin lt w1 show ?thesis by blast
  next
    case (Some e)
    then have e: "e \<in> set ?sq" "inWindow ?st e" by (auto simp add: find_Some_iff)
    have tgt: "targetClipAt ?sq ?st = Some e" using Some by (rule targetClipAt_found)
    have uniq: "\<forall>c \<in> set ?sq. inWindow ?st c \<longrightarrow> c = e"
      using window_unique[OF valid _ e(1)[unfolded sequence_def] _ e(2)] by (auto simp add: sequence_def)
    have "?st < totalDuration cs" using inB[OF e(1)] e(2) by (simp add: inWindow_def)
    then have beyond: "\<not> totalDuration cs \<le> time" using st_eq tot by (auto split: if_splits)
    have lt: "start e + (?st - sequenceStart e)
        = max (start e) (min (start e + (?st - sequenceStart e)) (end' e))"
      using inB[OF e(1)] e(2) by (simp add: inWindow_def)
    have c1: "commitSeekTarget cs time = Some (e, start e + (?st - sequenceStart e))"
      using tgt ct by simp
    have w1: "workerTarget cs time = Some (e, start e + (?st - sequenceStart e))"
      using tgt wt lt by simp
    from c1 st_eq st_lo st_hi e uniq beyond lt w1 show ?thesis by blast
  qed
  then show ?thesis using threeClips_seek_12 threeClips_seek_23 by blast
qed

text \<open>With no rounding the definitions are those of the exact model.\<close>

lemma sequenceFromWith_id: "sequenceFromWith (\<lambda>x. x) a cs = sequenceFrom a cs"
  by (induction cs arbitrary: a) (simp_all add: Let_def)

lemma commitSeekTargetWith_id: "commitSeekTargetWith (\<lambda>x. x) cs t = commitSeekTarget cs t"
  by (simp add: commitSeekTargetWith_def commitSeekTarget_def clampSeekTimeWith_def clampSeekTime_def
      totalDurationWith_def totalDuration_def sequenceWith_def sequence_def sequenceFromWith_id)

lemma workerTargetWith_id: "workerTargetWith (\<lambda>x. x) cs t = workerTarget cs t"
  by (simp add: workerTargetWith_def workerTarget_def
      totalDurationWith_def totalDuration_def sequenceWith_def sequence_def sequenceFromWith_id)

text \<open>
  The rounding: \<open>binade\<close> is the binary exponent, and \<open>binary64\<close> is within half a unit in
  the last place of its argument.
\<close>

lemma bitLength_bounds: "0 < n \<Longrightarrow> 2 ^ (bitLength n - 1) \<le> n \<and> n < 2 ^ bitLength n"
proof (induction n rule: bitLength.induct)
  case (1 n)
  show ?case
  proof (cases "n div 2 = 0")
    case True
    with 1(2) have "n = 1" by (simp add: div_eq_0_iff) 
    then show ?thesis by (simp add: bitLength.simps)
  next
    case False
    then have p: "0 < n div 2" by simp
    from 1(1)[OF _ p] 1(2)
    have ih: "2 ^ (bitLength (n div 2) - 1) \<le> n div 2" "n div 2 < 2 ^ bitLength (n div 2)" by simp_all
    have b: "bitLength n = Suc (bitLength (n div 2))" using 1(2) by (subst bitLength.simps) simp
    have pos: "0 < bitLength (n div 2)" using p by (subst bitLength.simps) simp
    then have e: "bitLength n - 1 = Suc (bitLength (n div 2) - 1)" using b by simp
    have "2 ^ (bitLength n - 1) = 2 * 2 ^ (bitLength (n div 2) - 1)" unfolding e by simp
    also have "\<dots> \<le> 2 * (n div 2)" using ih(1) by simp
    also have "\<dots> \<le> n" by simp
    finally have lo: "2 ^ (bitLength n - 1) \<le> n" .
    have "n < 2 * (n div 2) + 2" by presburger
    also have "\<dots> \<le> 2 * 2 ^ bitLength (n div 2)" using ih(2) by simp
    also have "\<dots> = 2 ^ bitLength n" unfolding b by simp
    finally show ?thesis using lo by simp
  qed
qed

lemma bitLength_zero: "bitLength 0 = 0" by (simp add: bitLength.simps)

lemma pow2_neg: "pow2 (- int k) = 1 / 2 ^ k"
proof (cases "k = 0")
  case True
  then show ?thesis by (simp add: pow2_def)
next
  case False
  then have "\<not> 0 \<le> - int k" by simp
  then have "pow2 (- int k) = 1 / 2 ^ nat (- (- int k))" unfolding pow2_def by (rule if_not_P)
  then show ?thesis by simp
qed

lemma pow2_nat: "pow2 (int k) = 2 ^ k"
  by (simp add: pow2_def)

lemma binade_bounds:
  assumes "0 < x"
  shows "pow2 (binade x) \<le> x \<and> x < pow2 (binade x + 1)"
proof (cases "1 \<le> x")
  case True
  let ?n = "nat \<lfloor>x\<rfloor>"
  have n: "0 < ?n" using True by simp
  from bitLength_bounds[OF n] have lo: "2 ^ (bitLength ?n - 1) \<le> ?n" and hi: "?n < 2 ^ bitLength ?n" by simp_all
  have pos: "0 < bitLength ?n" using n by (subst bitLength.simps) simp
  have b: "binade x = int (bitLength ?n - 1)" using True pos by (simp add: binade_def)
  have "real (2 ^ (bitLength ?n - 1)) \<le> real ?n" using lo by (simp only: of_nat_le_iff)
  also have "real ?n \<le> x" using True by simp
  finally have l: "pow2 (binade x) \<le> x" by (simp only: b pow2_nat) simp
  from hi have "Suc ?n \<le> 2 ^ bitLength ?n" by (rule Suc_leI)
  then have "real (Suc ?n) \<le> real (2 ^ bitLength ?n)" by (simp only: of_nat_le_iff)
  moreover have "x < real (Suc ?n)" using True by simp linarith
  ultimately have "x < 2 ^ bitLength ?n" by simp
  moreover have e: "binade x + 1 = int (bitLength ?n)" using b pos by simp
  have "pow2 (binade x + 1) = 2 ^ bitLength ?n" by (simp only: e pow2_nat)
  ultimately have "x < pow2 (binade x + 1)" by simp
  with l show ?thesis by simp
next
  case False
  then have x1: "x < 1" by simp
  define y where "y = 1 / x"
  define z where "z = \<lceil>y\<rceil>"
  define m where "m = nat (z - 1)"
  have y1: "1 < y" using assms x1 by (simp add: y_def)
  have zy: "y \<le> real_of_int z" "real_of_int z < y + 1" unfolding z_def by linarith+
  have c2: "2 \<le> z" using y1 zy by linarith
  then have m: "0 < m" by (simp add: m_def)
  from bitLength_bounds[OF m] have lo: "2 ^ (bitLength m - 1) \<le> m" and hi: "m < 2 ^ bitLength m" by simp_all
  have pos: "0 < bitLength m" using m by (subst bitLength.simps) simp
  have b: "binade x = - int (bitLength m)" using False by (simp add: binade_def m_def z_def y_def)
  have mr: "real m = real_of_int z - 1" using c2 by (simp add: m_def)
  from hi have "Suc m \<le> 2 ^ bitLength m" by (rule Suc_leI)
  then have "real (Suc m) \<le> real (2 ^ bitLength m)" by (simp only: of_nat_le_iff)
  then have "real_of_int z \<le> 2 ^ bitLength m" using mr by simp
  then have yhi: "y \<le> 2 ^ bitLength m" using zy by linarith
  have "real (2 ^ (bitLength m - 1)) \<le> real m" using lo by (simp only: of_nat_le_iff)
  then have "2 ^ (bitLength m - 1) \<le> real_of_int z - 1" using mr by simp
  then have ylo: "2 ^ (bitLength m - 1) < y" using zy by linarith
  have xy: "1 / y = x" using assms by (simp add: y_def)
  have l: "pow2 (binade x) \<le> x"
  proof -
    have "1 / 2 ^ bitLength m \<le> 1 / y"
      using yhi y1 by (intro divide_left_mono) simp_all
    moreover have "pow2 (binade x) = 1 / 2 ^ bitLength m" by (simp only: b pow2_neg)
    ultimately show ?thesis using xy by simp
  qed
  have h: "x < pow2 (binade x + 1)"
  proof -
    have "1 / y < 1 / 2 ^ (bitLength m - 1)"
      using ylo y1 by (intro divide_strict_left_mono) simp_all
    then have "x < 1 / 2 ^ (bitLength m - 1)" using xy by simp
    moreover have e: "binade x + 1 = - int (bitLength m - 1)" using b pos by simp
    have "pow2 (binade x + 1) = 1 / 2 ^ (bitLength m - 1)" by (simp only: e pow2_neg)
    ultimately show ?thesis by simp
  qed
  from l h show ?thesis by simp
qed

lemma roundTiesToEven_nearest: "\<bar>of_int (roundTiesToEven x) - x\<bar> \<le> 1 / 2"
  unfolding roundTiesToEven_def Let_def by (simp add: abs_le_iff)

lemma pow2_pos: "0 < pow2 e"
  by (simp add: pow2_def)

lemma binary64_error:
  "\<bar>binary64 x - x\<bar> \<le> pow2 (max (binade \<bar>x\<bar>) (- 1022) - 52) / 2"
proof (cases "x = 0")
  case True
  then show ?thesis using pow2_pos[of "max (binade \<bar>x\<bar>) (- 1022) - 52"] by (simp add: binary64_def)
next
  case False
  define u where "u = pow2 (max (binade \<bar>x\<bar>) (- 1022) - 52)"
  have u: "0 < u" unfolding u_def by (rule pow2_pos)
  have b: "binary64 x = of_int (roundTiesToEven (x / u)) * u"
    using False by (simp add: binary64_def u_def Let_def)
  have "binary64 x - x = (of_int (roundTiesToEven (x / u)) - x / u) * u"
    using u by (simp add: b algebra_simps)
  then have "\<bar>binary64 x - x\<bar> = \<bar>of_int (roundTiesToEven (x / u)) - x / u\<bar> * u"
    using u by (simp add: abs_mult)
  also have "\<dots> \<le> (1 / 2) * u"
    using roundTiesToEven_nearest[of "x / u"] u by (intro mult_right_mono) simp_all
  finally show ?thesis by (simp add: u_def)
qed

text \<open>The values that the two-clip scenario needs.\<close>

lemma binary64_values:
  "binary64 10 = 10"
  "binary64 (3 / 10) = 5404319552844595 / 18014398509481984"
  "binary64 (103 / 10) = 2899192260119757 / 281474976710656"
  "binary64 (5404319552844595 / 18014398509481984) = 5404319552844595 / 18014398509481984"
  "binary64 (10 + 5404319552844595 / 18014398509481984) = 2899192260119757 / 281474976710656"
  "binary64 (185548304647664435 / 18014398509481984) = 2899192260119757 / 281474976710656"
  "binary64 (2899192260119757 / 281474976710656 - 10) = 84442493013197 / 281474976710656"
  "binary64 (84442493013197 / 281474976710656) = 84442493013197 / 281474976710656"
  by (simp_all add: binary64_def binade_def pow2_def roundTiesToEven_def bitLength.simps Let_def)

lemma shortTail_sequence:
  "sequenceWith binary64 shortTail =
     [\<lparr> id' = ''a'', url = ''blob:a'', name = ''a.mp4'', originalDuration = 10,
         start = 0, end' = 10, fps = 60, isSelected = False,
         sequenceStart = 0, sequenceDuration = 10, sequenceEnd = 10 \<rparr>,
      \<lparr> id' = ''b'', url = ''blob:b'', name = ''b.mp4'',
         originalDuration = 5404319552844595 / 18014398509481984,
         start = 0, end' = 5404319552844595 / 18014398509481984, fps = 60, isSelected = False,
         sequenceStart = 10, sequenceDuration = 5404319552844595 / 18014398509481984,
         sequenceEnd = 2899192260119757 / 281474976710656 \<rparr>]"
  by (simp add: sequenceWith_def shortTail_def Let_def binary64_values)

lemma shortTail_total: "totalDurationWith binary64 shortTail = 2899192260119757 / 281474976710656"
  by (simp add: totalDurationWith_def totalDurationOf_def shortTail_sequence)

lemma shortTail_clamped:
  "clampSeekTimeWith binary64 shortTail 11 = 2899192260119757 / 281474976710656"
  "clampSeekTimeWith binary64 shortTail (binary64 (103 / 10)) = 2899192260119757 / 281474976710656"
  "clampSeekTimeWith binary64 shortTail 1000000000 = 2899192260119757 / 281474976710656"
  by (simp_all add: clampSeekTimeWith_def shortTail_total binary64_values)

lemma shortTail_target:
  "targetClipAt (sequenceWith binary64 shortTail) (2899192260119757 / 281474976710656)
     = Some (sequenceWith binary64 shortTail ! 1)"
  by (simp add: shortTail_sequence targetClipAt_def inWindow_def lastEntry_def)

lemma shortTail_commit:
  "commitSeekTargetWith binary64 shortTail 11
     = Some (sequenceWith binary64 shortTail ! 1, 84442493013197 / 281474976710656)"
  unfolding commitSeekTargetWith_def Let_def shortTail_clamped shortTail_target
  by (simp add: shortTail_sequence binary64_values)

lemma shortTail_worker:
  "workerTargetWith binary64 shortTail 11
     = Some (sequenceWith binary64 shortTail ! 1, 5404319552844595 / 18014398509481984)"
  unfolding workerTargetWith_def Let_def shortTail_total
  by (simp add: shortTail_target) (simp add: shortTail_sequence binary64_values)

text \<open>
  The three-clip scenario involves small integers only and is exact in double precision:
  time 12 maps to the second clip at local time 2 and time 23 to the third clip at its end.
\<close>

lemma binary64_small:
  "binary64 2 = 2" "binary64 5 = 5" "binary64 8 = 8" "binary64 12 = 12"
  "binary64 15 = 15" "binary64 23 = 23" "binary64 13 = 13"
  by (simp_all add: binary64_def binade_def pow2_def roundTiesToEven_def bitLength.simps Let_def)

lemma threeClips_binary64:
  "sequenceWith binary64 threeClips = sequence threeClips"
  "commitSeekTargetWith binary64 threeClips 12 = Some (sequence threeClips ! 1, 2)"
  "commitSeekTargetWith binary64 threeClips 23 = Some (sequence threeClips ! 2, 8)"
  by (simp_all add: commitSeekTargetWith_def clampSeekTimeWith_def totalDurationWith_def
      totalDurationOf_def sequenceWith_def sequence_def threeClips_def targetClipAt_def
      inWindow_def lastEntry_def Let_def binary64_small binary64_values)

text \<open>
  Claim C1 fails on the code as the machine runs it. The claim has the commit seek yield
  the local time clamped to the entry's trimmed range. \<^verbatim>\<open>seekToGlobalTime\<close> computes
  \<^verbatim>\<open>targetClip.start + (seekTime - targetClip.sequenceStart)\<close> and applies no clamp, where the
  preview worker (line 615) and \<^verbatim>\<open>previewAtGlobalTime\<close> (line 772) clamp the same expression.
  For a clip of ten seconds followed by a clip of 0.3 seconds the total duration is the double
  nearest to 10.3, which is above 10.3; a commit seek to 11, to 10.3 or to any later time is
  clamped to the total, falls back to the last entry, and yields the local time
  0.3000000000000007 (84442493013197 / 2 ^ 48), beyond the clip's end 0.3
  (5404319552844595 / 2 ^ 54). The worker's mapping of the same request gives the end.
\<close>

theorem commitSeek_overshoots:
  "commitSeekTargetWith binary64 shortTail 11
     = Some (sequenceWith binary64 shortTail ! 1, 84442493013197 / 281474976710656)
   \<and> commitSeekTargetWith binary64 shortTail (binary64 (103 / 10))
     = Some (sequenceWith binary64 shortTail ! 1, 84442493013197 / 281474976710656)
   \<and> commitSeekTargetWith binary64 shortTail 1000000000
     = Some (sequenceWith binary64 shortTail ! 1, 84442493013197 / 281474976710656)
   \<and> id' (sequenceWith binary64 shortTail ! 1) = ''b''
   \<and> start (sequenceWith binary64 shortTail ! 1) = 0
   \<and> end' (sequenceWith binary64 shortTail ! 1) = binary64 (3 / 10)
   \<and> end' (sequenceWith binary64 shortTail ! 1) < 84442493013197 / 281474976710656
   \<and> max (start (sequenceWith binary64 shortTail ! 1))
        (min (84442493013197 / 281474976710656) (end' (sequenceWith binary64 shortTail ! 1)))
      \<noteq> 84442493013197 / 281474976710656
   \<and> workerTargetWith binary64 shortTail 11
     = Some (sequenceWith binary64 shortTail ! 1, end' (sequenceWith binary64 shortTail ! 1))"
proof -
  have c: "commitSeekTargetWith binary64 shortTail t
     = Some (sequenceWith binary64 shortTail ! 1, 84442493013197 / 281474976710656)"
    if "clampSeekTimeWith binary64 shortTail t = 2899192260119757 / 281474976710656" for t
    unfolding commitSeekTargetWith_def Let_def that shortTail_target
    by (simp add: shortTail_sequence binary64_values)
  have e: "id' (sequenceWith binary64 shortTail ! 1) = ''b''"
    "start (sequenceWith binary64 shortTail ! 1) = 0"
    "end' (sequenceWith binary64 shortTail ! 1) = 5404319552844595 / 18014398509481984"
    by (simp_all add: shortTail_sequence)
  show ?thesis
    unfolding e shortTail_worker c[OF shortTail_clamped(1)] c[OF shortTail_clamped(2)]
      c[OF shortTail_clamped(3)]
    by (simp add: binary64_values)
qed

text \<open>
  The list items get the same positions as the player's sequence, so an item's
  \<^verbatim>\<open>sequenceStart\<close> is that of the player's entry for the same clip.
\<close>

lemma clipsWithSelectionFrom_agrees:
  "map (\<lambda>(c, s, e). (id' c, start c, end' c, s, e)) (clipsWithSelectionFrom a sel cl)
     = map (\<lambda>e. (id' e, start e, end' e, sequenceStart e, sequenceEnd e)) (sequenceFrom a cl)"
  by (induction cl arbitrary: a) (simp_all add: Let_def)

lemma clipsWithSelection_agrees:
  "map (\<lambda>(c, s, e). (id' c, start c, end' c, s, e)) (clipsWithSelection sel cl)
     = map (\<lambda>e. (id' e, start e, end' e, sequenceStart e, sequenceEnd e)) (sequence cl)"
  by (simp add: clipsWithSelection_def sequence_def clipsWithSelectionFrom_agrees)

text \<open>
  Claim C3. For every global time \<open>t\<close> with \<open>0 \<le> t < totalDuration\<close>, the seek mapping
  finds an entry whose half-open window holds \<open>t\<close>, and mapping its local time back with
  \<^verbatim>\<open>toGlobalTimeFromLocal\<close> returns \<open>t\<close> (exactly, over the reals); a time on an
  entry boundary belongs to the entry that begins there and maps to that entry's start.
\<close>

theorem globalToLocal_roundtrip:
  assumes "0 \<le> t" and "t < totalDuration cs"
  shows "\<exists>e lt. commitSeekTarget cs t = Some (e, lt)
           \<and> e \<in> set (sequence cs) \<and> inWindow t e
           \<and> toGlobalTimeFromLocal e (sequenceStart e) lt = t
           \<and> (t = sequenceStart e \<longrightarrow> lt = start e)"
proof -
  have ne: "cs \<noteq> []"
    using assms by (auto simp add: totalDuration_def totalDurationOf_def sequence_def)
  have st: "clampSeekTime cs t = t"
    using assms by (simp add: clampSeekTime_def)
  have "t < sequenceEnd (last (sequenceFrom 0 cs))"
    using assms(2) ne by (simp add: totalDuration_last sequence_def)
  from window_exists[OF assms(1) ne this]
  obtain c where "c \<in> set (sequence cs)" "inWindow t c" by (auto simp add: sequence_def)
  then have "List.find (inWindow t) (sequence cs) \<noteq> None"
    by (auto simp add: find_None_iff)
  then obtain e where f: "List.find (inWindow t) (sequence cs) = Some e" by auto
  then have e: "e \<in> set (sequence cs)" "inWindow t e"
    by (auto simp add: find_Some_iff)
  have w: "sequenceEnd e = sequenceStart e + (end' e - start e)"
    using e(1) sequenceFrom_entry_window sequence_def by metis
  let ?lt = "start e + (t - sequenceStart e)"
  have tgt: "commitSeekTarget cs t = Some (e, ?lt)"
    using f st by (simp add: commitSeekTarget_def targetClipAt_def)
  have rt: "toGlobalTimeFromLocal e (sequenceStart e) ?lt = t"
    using e(2) w by (simp add: toGlobalTimeFromLocal_def clamp_def inWindow_def)
  show ?thesis using tgt e rt by simp
qed


text \<open>The three-clip scenario at time 12 satisfies the hypotheses.\<close>

theorem globalToLocal_roundtrip_witness:
  "(0::real) \<le> 12 \<and> 12 < totalDuration threeClips
   \<and> (\<exists>e lt. commitSeekTarget threeClips 12 = Some (e, lt)
          \<and> e \<in> set (sequence threeClips) \<and> inWindow 12 e
          \<and> toGlobalTimeFromLocal e (sequenceStart e) lt = 12
          \<and> (12 = sequenceStart e \<longrightarrow> lt = start e))"
proof -
  have lo: "(0::real) \<le> 12" by simp
  have hi: "12 < totalDuration threeClips" by (simp add: threeClips_total)
  from globalToLocal_roundtrip [OF lo hi] lo hi show ?thesis by blast
qed

section \<open>Timecode formatting\<close>

lemma natToString_small: "n < 10 \<Longrightarrow> natToString n = [digitChar n]"
  by (simp add: natToString.simps)

lemma natToString_two:
  "10 \<le> n \<Longrightarrow> n < 100 \<Longrightarrow> natToString n = [digitChar (n div 10), digitChar (n mod 10)]"
  by (subst natToString.simps) (simp add: natToString_small)

lemma padStart_two_digits:
  assumes "n < 100"
  shows "padStart 2 CHR ''0'' (toString (int n)) = [digitChar (n div 10), digitChar (n mod 10)]"
proof (cases "n < 10")
  case True
  then show ?thesis by (simp add: padStart_def toString_def natToString_small digitChar_def)
next
  case False
  then have "natToString n = [digitChar (n div 10), digitChar (n mod 10)]"
    using assms by (simp add: natToString_two)
  then show ?thesis by (simp add: padStart_def toString_def)
qed

lemma padStart_two_digits_int:
  assumes "0 \<le> i" and "i < 100"
  shows "padStart 2 CHR ''0'' (toString i) = [digitChar (nat i div 10), digitChar (nat i mod 10)]"
proof -
  have "nat i < 100" using assms by simp
  from padStart_two_digits[OF this] assms(1) show ?thesis by simp
qed

lemma frames_range: "0 \<le> mathRound (frac t * 60) \<and> mathRound (frac t * 60) \<le> 60"
proof -
  have "0 \<le> frac t" and "frac t < 1" by (simp_all add: frac_lt_1)
  then have "0 \<le> frac t * 60 + 1 / 2" and "frac t * 60 + 1 / 2 < 61" by simp_all
  then show ?thesis unfolding mathRound_def by (simp add: floor_less_iff le_floor_iff)
qed

lemma frames_rollover:
  assumes "119 / 120 \<le> frac t"
  shows "mathRound (frac t * 60) = 60"
proof -
  have "frac t < 1" by (simp add: frac_lt_1)
  then have "frac t * 60 + 1 / 2 < 61" by simp
  moreover have "60 \<le> frac t * 60 + 1 / 2" using assms by simp
  ultimately show ?thesis unfolding mathRound_def by (simp add: floor_eq_iff)
qed

lemma jsRemainder_nonneg:
  assumes "0 \<le> t"
  shows "\<lfloor>jsRemainder t 60\<rfloor> = \<lfloor>t\<rfloor> mod 60"
proof -
  have d: "\<lfloor>t / 60\<rfloor> = \<lfloor>t\<rfloor> div 60"
    using floor_divide_real_eq_div[of 60 t] by simp
  have "jsRemainder t 60 = t - of_int (60 * \<lfloor>t / 60\<rfloor>)"
    using assms by (simp add: jsRemainder_def)
  then have "\<lfloor>jsRemainder t 60\<rfloor> = \<lfloor>t\<rfloor> - 60 * \<lfloor>t / 60\<rfloor>"
    by (simp only: floor_diff_of_int)
  then show ?thesis using d by (simp add: minus_mult_div_eq_mod)
qed

lemma formatTimecode_eq:
  "formatTimecode t = padStart 2 CHR ''0'' (toString \<lfloor>t\<rfloor>) @ '':''
                      @ padStart 2 CHR ''0'' (toString (mathRound (frac t * 60)))"
  by (simp add: formatTimecode_def Let_def frac_def)

lemma formatDurationDisplay_eq:
  "formatDurationDisplay t = padStart 2 CHR ''0'' (toString \<lfloor>t / 60\<rfloor>) @ '':''
                      @ padStart 2 CHR ''0'' (toString \<lfloor>jsRemainder t 60\<rfloor>) @ ''.''
                      @ padStart 2 CHR ''0'' (toString (mathRound (frac t * 60)))"
  by (simp add: formatDurationDisplay_def Let_def frac_def)

lemma formatTimecode_example: "formatTimecode 0.3 = ''00:18''"
  by (simp add: formatTimecode_def mathRound_def padStart_def toString_def natToString.simps digitChar_def Let_def)

lemma formatDurationDisplay_example: "formatDurationDisplay 65.5 = ''01:05.30''"
  by (simp add: formatDurationDisplay_def mathRound_def jsRemainder_def padStart_def toString_def natToString.simps digitChar_def Let_def)

lemma formatTimecode_rollover_example: "formatTimecode 0.996 = ''00:60''"
  by (simp add: formatTimecode_def mathRound_def padStart_def toString_def natToString.simps digitChar_def Let_def)

lemma formatDurationDisplay_rollover_example: "formatDurationDisplay 0.996 = ''00:00.60''"
  by (simp add: formatDurationDisplay_def mathRound_def jsRemainder_def padStart_def toString_def natToString.simps digitChar_def Let_def)

text \<open>
  Claim C4. Both formatters take the number of seconds only, so no clip frame rate enters.
  For \<open>0 \<le> t < 100\<close>, \<^verbatim>\<open>formatTimecode\<close> is the two decimal digits of
  \<open>\<lfloor>t\<rfloor>\<close>, a colon and the two decimal digits of \<open>round (frac t \<times> 60)\<close>; for
  \<open>0 \<le> t < 6000\<close>, \<^verbatim>\<open>formatDurationDisplay\<close> is the two digits of the minutes, a
  colon, the two digits of the seconds within the minute, a period and the same frame
  digits. \<^verbatim>\<open>formatTimecode(0.3)\<close> is \<^verbatim>\<open>00:18\<close> and
  \<^verbatim>\<open>formatDurationDisplay(65.5)\<close> is \<^verbatim>\<open>01:05.30\<close>.
\<close>

theorem format_digits:
  assumes "0 \<le> t"
  shows "(t < 100 \<longrightarrow>
            formatTimecode t =
              [digitChar (nat \<lfloor>t\<rfloor> div 10), digitChar (nat \<lfloor>t\<rfloor> mod 10), CHR '':'',
               digitChar (nat (mathRound (frac t * 60)) div 10),
               digitChar (nat (mathRound (frac t * 60)) mod 10)])
       \<and> (t < 6000 \<longrightarrow>
            formatDurationDisplay t =
              [digitChar (nat \<lfloor>t / 60\<rfloor> div 10), digitChar (nat \<lfloor>t / 60\<rfloor> mod 10), CHR '':'',
               digitChar (nat (\<lfloor>t\<rfloor> mod 60) div 10), digitChar (nat (\<lfloor>t\<rfloor> mod 60) mod 10), CHR ''.'',
               digitChar (nat (mathRound (frac t * 60)) div 10),
               digitChar (nat (mathRound (frac t * 60)) mod 10)])
       \<and> formatTimecode 0.3 = ''00:18''
       \<and> formatDurationDisplay 65.5 = ''01:05.30''"
proof -
  let ?f = "mathRound (frac t * 60)"
  have fr: "padStart 2 CHR ''0'' (toString ?f) = [digitChar (nat ?f div 10), digitChar (nat ?f mod 10)]"
    using padStart_two_digits_int[of ?f] frames_range[of t] by simp
  have a: "formatTimecode t =
              [digitChar (nat \<lfloor>t\<rfloor> div 10), digitChar (nat \<lfloor>t\<rfloor> mod 10), CHR '':'',
               digitChar (nat ?f div 10), digitChar (nat ?f mod 10)]" if "t < 100"
  proof -
    have "0 \<le> \<lfloor>t\<rfloor>" "\<lfloor>t\<rfloor> < 100" using assms that by (simp_all add: floor_less_iff)
    then have "padStart 2 CHR ''0'' (toString \<lfloor>t\<rfloor>) = [digitChar (nat \<lfloor>t\<rfloor> div 10), digitChar (nat \<lfloor>t\<rfloor> mod 10)]"
      by (rule padStart_two_digits_int)
    then show ?thesis using fr by (simp add: formatTimecode_eq)
  qed
  have b: "formatDurationDisplay t =
              [digitChar (nat \<lfloor>t / 60\<rfloor> div 10), digitChar (nat \<lfloor>t / 60\<rfloor> mod 10), CHR '':'',
               digitChar (nat (\<lfloor>t\<rfloor> mod 60) div 10), digitChar (nat (\<lfloor>t\<rfloor> mod 60) mod 10), CHR ''.'',
               digitChar (nat ?f div 10), digitChar (nat ?f mod 10)]" if "t < 6000"
  proof -
    have "0 \<le> \<lfloor>t / 60\<rfloor>" "\<lfloor>t / 60\<rfloor> < 100" using assms that by (simp_all add: floor_less_iff)
    then have m: "padStart 2 CHR ''0'' (toString \<lfloor>t / 60\<rfloor>) = [digitChar (nat \<lfloor>t / 60\<rfloor> div 10), digitChar (nat \<lfloor>t / 60\<rfloor> mod 10)]"
      by (rule padStart_two_digits_int)
    have "0 \<le> \<lfloor>t\<rfloor> mod 60" "\<lfloor>t\<rfloor> mod 60 < 100"
      by (simp_all add: pos_mod_bound[of 60 "\<lfloor>t\<rfloor>", THEN less_trans])
    then have s: "padStart 2 CHR ''0'' (toString (\<lfloor>t\<rfloor> mod 60)) = [digitChar (nat (\<lfloor>t\<rfloor> mod 60) div 10), digitChar (nat (\<lfloor>t\<rfloor> mod 60) mod 10)]"
      by (rule padStart_two_digits_int)
    show ?thesis using m s fr jsRemainder_nonneg[OF assms] by (simp add: formatDurationDisplay_eq)
  qed
  from a b formatTimecode_example formatDurationDisplay_example show ?thesis by blast
qed

text \<open>The input 65.5 satisfies the hypotheses.\<close>

theorem format_digits_witness:
  "(0::real) \<le> 65.5 \<and> (65.5::real) < 100 \<and> (65.5::real) < 6000
   \<and> formatTimecode 65.5 = ''65:30''
   \<and> formatDurationDisplay 65.5 = ''01:05.30''"
proof -
  have h: "(0::real) \<le> 65.5" and a: "(65.5::real) < 100" and b: "(65.5::real) < 6000" by simp_all
  have f: "mathRound (frac 65.5 * 60) = 30"
    by (simp add: mathRound_def frac_def)
  note th = format_digits [OF h]
  have "formatTimecode 65.5 = ''65:30''"
    using th a f by (simp add: digitChar_def)
  moreover have "formatDurationDisplay 65.5 = ''01:05.30''"
    using th b f by (simp add: digitChar_def)
  ultimately show ?thesis using h a b by blast
qed

lemma formatTimecode_later_example: "formatTimecode 5.996 = ''05:60''"
  by (simp add: formatTimecode_def mathRound_def padStart_def toString_def natToString.simps digitChar_def Let_def)

lemma formatDurationDisplay_later_example: "formatDurationDisplay 65.996 = ''01:05.60''"
  by (simp add: formatDurationDisplay_def mathRound_def jsRemainder_def padStart_def toString_def natToString.simps digitChar_def Let_def)

text \<open>
  Claim C10. The frame field is \<open>round (frac t \<times> 60)\<close> with no carry into the seconds:
  whenever the fractional part is at least \<open>59.5/60\<close> the frame number is 60, the
  seconds field of \<^verbatim>\<open>formatTimecode\<close> is still that of \<open>\<lfloor>t\<rfloor>\<close> and the minutes and
  seconds fields of \<^verbatim>\<open>formatDurationDisplay\<close> are still those of \<open>\<lfloor>t / 60\<rfloor>\<close> and
  \<open>\<lfloor>t\<rfloor> mod 60\<close>, followed by the frame field \<^verbatim>\<open>60\<close>. So
  \<^verbatim>\<open>formatTimecode(0.996)\<close> is \<^verbatim>\<open>00:60\<close> and \<^verbatim>\<open>formatTimecode(5.996)\<close> is
  \<^verbatim>\<open>05:60\<close>, not \<^verbatim>\<open>01:00\<close> and \<^verbatim>\<open>06:00\<close>.
\<close>

theorem frames_reach_60:
  assumes "119 / 120 \<le> frac t"
  shows "mathRound (frac t * 60) = 60
       \<and> formatTimecode t = padStart 2 CHR ''0'' (toString \<lfloor>t\<rfloor>) @ '':60''
       \<and> formatDurationDisplay t
           = padStart 2 CHR ''0'' (toString \<lfloor>t / 60\<rfloor>) @ '':''
             @ padStart 2 CHR ''0'' (toString \<lfloor>jsRemainder t 60\<rfloor>) @ ''.60''
       \<and> (0 \<le> t \<and> t < 100 \<longrightarrow>
            formatTimecode t =
              [digitChar (nat \<lfloor>t\<rfloor> div 10), digitChar (nat \<lfloor>t\<rfloor> mod 10), CHR '':'',
               CHR ''6'', CHR ''0''])
       \<and> (0 \<le> t \<and> t < 6000 \<longrightarrow>
            formatDurationDisplay t =
              [digitChar (nat \<lfloor>t / 60\<rfloor> div 10), digitChar (nat \<lfloor>t / 60\<rfloor> mod 10), CHR '':'',
               digitChar (nat (\<lfloor>t\<rfloor> mod 60) div 10), digitChar (nat (\<lfloor>t\<rfloor> mod 60) mod 10), CHR ''.'',
               CHR ''6'', CHR ''0''])
       \<and> (\<exists>p. formatTimecode t = p @ '':60'')
       \<and> (\<exists>p. formatDurationDisplay t = p @ ''.60'')
       \<and> formatTimecode 0.996 = ''00:60''
       \<and> formatDurationDisplay 0.996 = ''00:00.60''
       \<and> formatTimecode 5.996 = ''05:60''
       \<and> formatDurationDisplay 65.996 = ''01:05.60''"
proof -
  have f: "mathRound (frac t * 60) = 60" using assms by (rule frames_rollover)
  have p: "padStart 2 CHR ''0'' (toString 60) = ''60''"
    by (simp add: padStart_def toString_def natToString.simps digitChar_def)
  have a: "formatTimecode t = padStart 2 CHR ''0'' (toString \<lfloor>t\<rfloor>) @ '':60''"
    using f p by (simp add: formatTimecode_eq)
  have b: "formatDurationDisplay t = padStart 2 CHR ''0'' (toString \<lfloor>t / 60\<rfloor>) @ '':''
                      @ padStart 2 CHR ''0'' (toString \<lfloor>jsRemainder t 60\<rfloor>) @ ''.60''"
    using f p by (simp add: formatDurationDisplay_eq)
  have c: "formatTimecode t =
              [digitChar (nat \<lfloor>t\<rfloor> div 10), digitChar (nat \<lfloor>t\<rfloor> mod 10), CHR '':'',
               CHR ''6'', CHR ''0'']" if "0 \<le> t \<and> t < 100"
  proof -
    have "0 \<le> \<lfloor>t\<rfloor>" "\<lfloor>t\<rfloor> < 100" using that by (simp_all add: floor_less_iff)
    then have "padStart 2 CHR ''0'' (toString \<lfloor>t\<rfloor>) = [digitChar (nat \<lfloor>t\<rfloor> div 10), digitChar (nat \<lfloor>t\<rfloor> mod 10)]"
      by (rule padStart_two_digits_int)
    then show ?thesis using a by simp
  qed
  have d: "formatDurationDisplay t =
              [digitChar (nat \<lfloor>t / 60\<rfloor> div 10), digitChar (nat \<lfloor>t / 60\<rfloor> mod 10), CHR '':'',
               digitChar (nat (\<lfloor>t\<rfloor> mod 60) div 10), digitChar (nat (\<lfloor>t\<rfloor> mod 60) mod 10), CHR ''.'',
               CHR ''6'', CHR ''0'']" if "0 \<le> t \<and> t < 6000"
  proof -
    have "0 \<le> \<lfloor>t / 60\<rfloor>" "\<lfloor>t / 60\<rfloor> < 100" using that by (simp_all add: floor_less_iff)
    then have m: "padStart 2 CHR ''0'' (toString \<lfloor>t / 60\<rfloor>) = [digitChar (nat \<lfloor>t / 60\<rfloor> div 10), digitChar (nat \<lfloor>t / 60\<rfloor> mod 10)]"
      by (rule padStart_two_digits_int)
    have "0 \<le> \<lfloor>t\<rfloor> mod 60" "\<lfloor>t\<rfloor> mod 60 < 100"
      by (simp_all add: pos_mod_bound[of 60 "\<lfloor>t\<rfloor>", THEN less_trans])
    then have s: "padStart 2 CHR ''0'' (toString (\<lfloor>t\<rfloor> mod 60)) = [digitChar (nat (\<lfloor>t\<rfloor> mod 60) div 10), digitChar (nat (\<lfloor>t\<rfloor> mod 60) mod 10)]"
      by (rule padStart_two_digits_int)
    have "0 \<le> t" using that by simp
    from jsRemainder_nonneg[OF this] m s b show ?thesis by simp
  qed
  have e: "\<exists>p. formatTimecode t = p @ '':60''" using a by blast
  have "formatDurationDisplay t = (padStart 2 CHR ''0'' (toString \<lfloor>t / 60\<rfloor>) @ '':''
                      @ padStart 2 CHR ''0'' (toString \<lfloor>jsRemainder t 60\<rfloor>)) @ ''.60''"
    using b by simp
  then have g: "\<exists>p. formatDurationDisplay t = p @ ''.60''" by blast
  from f a b c d e g formatTimecode_rollover_example formatDurationDisplay_rollover_example
    formatTimecode_later_example formatDurationDisplay_later_example
  show ?thesis by blast
qed

text \<open>The input 5.996 satisfies the hypotheses.\<close>

theorem frames_reach_60_witness:
  "119 / 120 \<le> frac (5.996::real) \<and> (0::real) \<le> 5.996 \<and> (5.996::real) < 100
   \<and> mathRound (frac 5.996 * 60) = 60
   \<and> formatTimecode 5.996 = ''05:60''
   \<and> formatDurationDisplay 5.996 = ''00:05.60''"
proof -
  have h: "119 / 120 \<le> frac (5.996::real)" by (simp add: frac_def)
  have r: "(0::real) \<le> 5.996 \<and> (5.996::real) < 100" and r2: "(0::real) \<le> 5.996 \<and> (5.996::real) < 6000"
    by simp_all
  note th = frames_reach_60 [OF h]
  from th have m: "mathRound (frac 5.996 * 60) = 60" by blast
  from th r have "formatTimecode 5.996 =
              [digitChar (nat \<lfloor>5.996::real\<rfloor> div 10), digitChar (nat \<lfloor>5.996::real\<rfloor> mod 10), CHR '':'',
               CHR ''6'', CHR ''0'']" by blast
  then have a: "formatTimecode 5.996 = ''05:60''" by (simp add: digitChar_def)
  from th r2 have "formatDurationDisplay 5.996 =
              [digitChar (nat \<lfloor>5.996 / 60 :: real\<rfloor> div 10), digitChar (nat \<lfloor>5.996 / 60 :: real\<rfloor> mod 10), CHR '':'',
               digitChar (nat (\<lfloor>5.996::real\<rfloor> mod 60) div 10), digitChar (nat (\<lfloor>5.996::real\<rfloor> mod 60) mod 10), CHR ''.'',
               CHR ''6'', CHR ''0'']" by blast
  then have b: "formatDurationDisplay 5.996 = ''00:05.60''" by (simp add: digitChar_def)
  from h r m a b show ?thesis by blast
qed

section \<open>Trim operations\<close>

text \<open>A pointer over the track gives a time inside the clip's media.\<close>

lemma getTimeFromClientX_range:
  assumes "0 \<le> originalDuration c"
  shows "0 \<le> getTimeFromClientX x l w c \<and> getTimeFromClientX x l w c \<le> originalDuration c"
proof -
  let ?pct = "if w > 0 then clamp ((x - l) / w) 0 1 else 0"
  have "0 \<le> ?pct" and "?pct \<le> 1" by (simp_all add: clamp_def)
  then have "0 \<le> ?pct * originalDuration c" and "?pct * originalDuration c \<le> 1 * originalDuration c"
    using assms by (simp_all add: mult_right_mono del: mult_1)
  then show ?thesis by (simp add: getTimeFromClientX_def Let_def)
qed

text \<open>
  On a clip whose window lies inside the media and is at least \<open>minDuration\<close> long, the
  Trim End button and both trim handles keep the window inside the media and at least
  \<open>minDuration\<close> long, which is at least one frame at the clip's rate; the Trim All action
  keeps every window at least a tenth of a second long.
\<close>

lemma minDuration_bounds: "1 / 10 \<le> minDuration c \<and> 1 / clipFps c \<le> minDuration c \<and> 0 < clipFps c"
  by (simp add: minDuration_def clipFps_def)

lemma handleTrimEnd_keeps_window:
  assumes "0 \<le> start c" and "end' c \<le> originalDuration c" and "minDuration c \<le> end' c - start c"
  shows "start (handleTrimEnd n c) = start c
       \<and> 0 \<le> start (handleTrimEnd n c)
       \<and> minDuration (handleTrimEnd n c) \<le> end' (handleTrimEnd n c) - start (handleTrimEnd n c)
       \<and> end' (handleTrimEnd n c) \<le> originalDuration (handleTrimEnd n c)"
proof -
  have m: "minDuration (handleTrimEnd n c) = minDuration c"
    by (simp add: handleTrimEnd_def minDuration_def clipFps_def Let_def)
  have "0 < max 1 (real_of_int (mathRound n)) / clipFps c"
    using minDuration_bounds[of c] by (simp add: max_def)
  then show ?thesis using assms m by (simp add: handleTrimEnd_def Let_def)
qed

lemma beginTrim_onMove_keeps_window:
  assumes "0 \<le> start c" and "end' c \<le> originalDuration c" and "minDuration c \<le> end' c - start c"
  shows "0 \<le> start (beginTrim_onMove edge t c)
       \<and> minDuration (beginTrim_onMove edge t c)
            \<le> end' (beginTrim_onMove edge t c) - start (beginTrim_onMove edge t c)
       \<and> end' (beginTrim_onMove edge t c) \<le> originalDuration (beginTrim_onMove edge t c)"
proof -
  have m: "minDuration (beginTrim_onMove edge t c) = minDuration c"
    by (cases edge) (simp_all add: beginTrim_onMove_def minDuration_def clipFps_def Let_def)
  show ?thesis
    using assms m by (cases edge) (auto simp add: beginTrim_onMove_def clamp_def Let_def)
qed

lemma handleBatchTrim_keeps_tenth:
  assumes "c \<in> set (handleBatchTrim prev)"
  shows "1 / 10 \<le> end' c - start c"
  using assms by (auto simp add: handleBatchTrim_def Let_def max_def)

text \<open>
  Claim C6. The claim asks every trim operation to keep \<open>0 \<le> start < end \<le> originalDuration\<close>
  and \<open>end - start\<close> at least one frame at the clip's rate. On a clip of 0.05 seconds the
  Trim End button and the Trim All action move \<open>end\<close> to 0.1, beyond the media, and the
  start handle moves \<open>start\<close> to -0.05; on a clip at five frames per second the Trim
  All action leaves a window of 0.1 seconds, half a frame, where the Trim End button
  leaves 0.2.
\<close>

theorem trim_corrupts_short_clip:
  "0 \<le> start shortClip \<and> start shortClip < end' shortClip \<and> end' shortClip \<le> originalDuration shortClip
   \<and> end' (handleTrimEnd 18 shortClip) = 1 / 10
   \<and> originalDuration (handleTrimEnd 18 shortClip) < end' (handleTrimEnd 18 shortClip)
   \<and> map end' (handleBatchTrim [shortClip]) = [1 / 10]
   \<and> map originalDuration (handleBatchTrim [shortClip]) = [5 / 100]
   \<and> start (beginTrim_onMove EdgeStart 0 shortClip) = - (5 / 100)
   \<and> 0 \<le> start slowClip \<and> start slowClip < end' slowClip \<and> end' slowClip \<le> originalDuration slowClip
   \<and> map (\<lambda>c. end' c - start c) (handleBatchTrim [slowClip]) = [1 / 10]
   \<and> 1 / fps slowClip = 2 / 10
   \<and> end' (handleTrimEnd 18 slowClip) - start (handleTrimEnd 18 slowClip) = 2 / 10"
  by (simp add: shortClip_def slowClip_def handleTrimEnd_def handleBatchTrim_def beginTrim_onMove_def
      minDuration_def clipFps_def clamp_def mathRound_def Let_def)

section \<open>Commit seek\<close>

lemma clampSeekTime_idem:
  "clampSeekTime cs (clampSeekTime cs time) = clampSeekTime cs time"
  by (simp add: clampSeekTime_def)

lemma commitSeekTarget_clamped:
  "commitSeekTarget cs (clampSeekTime cs time) = commitSeekTarget cs time"
  by (simp add: commitSeekTarget_def clampSeekTime_idem)

lemma seek_of_clamped:
  "seekToGlobalTime (clampSeekTime (clips s) time) s = seekToGlobalTime time s"
  by (simp add: seekToGlobalTime_def clampSeekTime_idem commitSeekTarget_clamped)

lemma commitSeekTarget_nonempty:
  assumes "cs \<noteq> []"
  shows "\<exists>e. commitSeekTarget cs time
              = Some (e, start e + (clampSeekTime cs time - sequenceStart e))"
proof -
  have "sequence cs \<noteq> []" using assms by (simp add: sequence_def)
  then have "\<exists>e. targetClipAt (sequence cs) (clampSeekTime cs time) = Some e"
    by (simp add: targetClipAt_def lastEntry_def split: option.split)
  then show ?thesis by (auto simp add: commitSeekTarget_def Let_def)
qed

lemma commitSeekTarget_empty: "commitSeekTarget [] time = None"
  by (simp add: commitSeekTarget_def targetClipAt_def lastEntry_def sequence_def)

lemma applySeek_result:
  "applySeek t s =
     Inr (case video s of
            None \<Rightarrow> s
          | Some v \<Rightarrow> s\<lparr>video := Some (v\<lparr>currentTime := t\<rparr>), currentPlaybackTime := t\<rparr>)"
  by (simp add: applySeek_def deref_def split: option.split)

lemma syncActiveClip_fields:
  "globalTimeDisplay (syncActiveClip s) = globalTimeDisplay s"
  "activeClipId (syncActiveClip s) = activeClipId s"
  "(video (syncActiveClip s) = None) = (video s = None)"
  by (simp_all add: syncActiveClip_def split: option.split)

lemma seek_nonempty:
  assumes "commitSeekTarget (clips s) time = Some (e, lt)"
  shows "\<exists>s'. seekToGlobalTime time s = Inr s'
            \<and> globalTimeDisplay s' = clampSeekTime (clips s) time
            \<and> activeClipId s' = Some (id' e)
            \<and> (video s = None \<longrightarrow> video s' = None)
            \<and> (video s \<noteq> None \<longrightarrow>
                  (\<exists>v'. video s' = Some v' \<and> currentTime v' = lt) \<and> currentPlaybackTime s' = lt)"
proof (cases "Some (id' e) \<noteq> activeClipId s")
  case True
  let ?q = "syncActiveClip (s\<lparr>globalTimeDisplay := clampSeekTime (clips s) time,
                              activeClipId := Some (id' e)\<rparr>)"
  have r: "seekToGlobalTime time s = applySeek lt ?q"
    using assms True by (simp add: seekToGlobalTime_def deref_def Let_def)
  have q: "globalTimeDisplay ?q = clampSeekTime (clips s) time" "activeClipId ?q = Some (id' e)"
      "(video ?q = None) = (video s = None)"
    by (simp_all add: syncActiveClip_fields)
  show ?thesis
  proof (cases "video ?q")
    case None
    then show ?thesis using r q by (simp add: applySeek_result)
  next
    case (Some v)
    then show ?thesis using r q by (auto simp add: applySeek_result)
  qed
next
  case False
  let ?q = "s\<lparr>globalTimeDisplay := clampSeekTime (clips s) time\<rparr>"
  have r: "seekToGlobalTime time s = applySeek lt ?q"
    using assms False by (simp add: seekToGlobalTime_def deref_def Let_def)
  show ?thesis
  proof (cases "video s")
    case None
    then show ?thesis using r False by (simp add: applySeek_result)
  next
    case (Some v)
    then show ?thesis using r False by (simp add: applySeek_result)
  qed
qed

lemma seek_empty:
  assumes "clips s = []"
  shows "seekToGlobalTime time s = Inr (s\<lparr>globalTimeDisplay := 0\<rparr>)"
  using assms
  by (simp add: seekToGlobalTime_def commitSeekTarget_empty clampSeekTime_def
      totalDuration_def totalDurationOf_def sequence_def Let_def)

lemma seek_returns:
  "\<exists>s'. seekToGlobalTime time s = Inr s' \<and> globalTimeDisplay s' = clampSeekTime (clips s) time"
proof (cases "clips s = []")
  case True
  then show ?thesis
    by (simp add: seek_empty clampSeekTime_def totalDuration_def totalDurationOf_def sequence_def)
next
  case False
  from commitSeekTarget_nonempty[OF this, of time] obtain e lt
    where "commitSeekTarget (clips s) time = Some (e, lt)" by blast
  from seek_nonempty[OF this] show ?thesis by blast
qed

lemma commitSeek_outside_preview:
  "\<not> isPreviewing s \<Longrightarrow> commitSeekToGlobalTime t s = seekToGlobalTime t s"
  by (simp add: commitSeekToGlobalTime_def endPreview_def)

lemma pausedPlayer_seek_30:
  "commitSeekTarget (clips pausedPlayer) 30 = Some (sequence threeClips ! 2, 8)
   \<and> clampSeekTime (clips pausedPlayer) 30 = 23"
  by (simp add: pausedPlayer_def commitSeekTarget_def clampSeekTime_def totalDuration_def
      totalDurationOf_def targetClipAt_def inWindow_def lastEntry_def sequence_def threeClips_def)

text \<open>
  Claim C7, as the code has it. A seek never raises: the two guards keep its accesses
  from \<^verbatim>\<open>undefined\<close> and \<^verbatim>\<open>null\<close>, so it returns a state for every state and every
  requested time, and so does the commit seek of the handle. It clamps the time: a seek
  at the requested time is the seek at the clamped time, which for clips with
  \<open>start \<le> end\<close> lies between zero and the total duration and is the nearest such value.
  With clips present the display shows the clamped time, the target entry's clip is the
  active one and a mounted element is at the entry's local time for the clamped time.
  With an empty clip list the total duration is zero and a seek sets the displayed
  position to zero and changes nothing else, so it leaves the state as it is exactly when
  the display already shows zero.
\<close>

theorem seek_clamps_and_empty:
  "(\<exists>s'. seekToGlobalTime time s = Inr s'
          \<and> globalTimeDisplay s' = clampSeekTime (clips s) time)
   \<and> (\<exists>s'. commitSeekToGlobalTime time s = Inr s')
   \<and> seekToGlobalTime time s = seekToGlobalTime (clampSeekTime (clips s) time) s
   \<and> ((\<forall>c \<in> set (clips s). start c \<le> end' c) \<longrightarrow>
         0 \<le> clampSeekTime (clips s) time
         \<and> clampSeekTime (clips s) time \<le> totalDuration (clips s)
         \<and> clampSeekTime (clips s) time
             = (if time < 0 then 0
                else if totalDuration (clips s) < time then totalDuration (clips s) else time))
   \<and> (clips s \<noteq> [] \<longrightarrow>
         (\<exists>e s'. commitSeekTarget (clips s) time
                    = Some (e, start e + (clampSeekTime (clips s) time - sequenceStart e))
                \<and> seekToGlobalTime time s = Inr s'
                \<and> activeClipId s' = Some (id' e)
                \<and> (video s = None \<longrightarrow> video s' = None)
                \<and> (video s \<noteq> None \<longrightarrow>
                      (\<exists>v'. video s' = Some v'
                            \<and> currentTime v'
                                = start e + (clampSeekTime (clips s) time - sequenceStart e))
                      \<and> currentPlaybackTime s'
                          = start e + (clampSeekTime (clips s) time - sequenceStart e))))
   \<and> (clips s = [] \<longrightarrow>
         totalDuration (clips s) = 0
         \<and> seekToGlobalTime time s = Inr (s\<lparr>globalTimeDisplay := 0\<rparr>)
         \<and> (\<not> isPreviewing s \<longrightarrow>
               commitSeekToGlobalTime time s = Inr (s\<lparr>globalTimeDisplay := 0\<rparr>))
         \<and> (globalTimeDisplay s = 0 \<longrightarrow> seekToGlobalTime time s = Inr s))"
proof -
  have r: "\<exists>s'. seekToGlobalTime time s = Inr s'
          \<and> globalTimeDisplay s' = clampSeekTime (clips s) time"
    by (rule seek_returns)
  have rc: "\<exists>s'. commitSeekToGlobalTime time s = Inr s'"
    using seek_returns[of time "endPreview s"] by (auto simp add: commitSeekToGlobalTime_def)
  have cl: "seekToGlobalTime time s = seekToGlobalTime (clampSeekTime (clips s) time) s"
    by (simp add: seek_of_clamped)
  have a: "0 \<le> clampSeekTime (clips s) time
         \<and> clampSeekTime (clips s) time \<le> totalDuration (clips s)
         \<and> clampSeekTime (clips s) time
             = (if time < 0 then 0
                else if totalDuration (clips s) < time then totalDuration (clips s) else time)"
    if "\<forall>c \<in> set (clips s). start c \<le> end' c"
  proof -
    have "0 \<le> totalDuration (clips s)" using that by (rule totalDuration_nonneg)
    then show ?thesis by (simp add: clampSeekTime_def)
  qed
  have n: "\<exists>e s'. commitSeekTarget (clips s) time
                    = Some (e, start e + (clampSeekTime (clips s) time - sequenceStart e))
                \<and> seekToGlobalTime time s = Inr s'
                \<and> activeClipId s' = Some (id' e)
                \<and> (video s = None \<longrightarrow> video s' = None)
                \<and> (video s \<noteq> None \<longrightarrow>
                      (\<exists>v'. video s' = Some v'
                            \<and> currentTime v'
                                = start e + (clampSeekTime (clips s) time - sequenceStart e))
                      \<and> currentPlaybackTime s'
                          = start e + (clampSeekTime (clips s) time - sequenceStart e))"
    if "clips s \<noteq> []"
  proof -
    from commitSeekTarget_nonempty[OF that, of time] obtain e
      where e: "commitSeekTarget (clips s) time
                  = Some (e, start e + (clampSeekTime (clips s) time - sequenceStart e))"
      by blast
    from seek_nonempty[OF e] obtain s' where s': "seekToGlobalTime time s = Inr s'"
        "activeClipId s' = Some (id' e)" "video s = None \<longrightarrow> video s' = None"
        "video s \<noteq> None \<longrightarrow>
                      (\<exists>v'. video s' = Some v'
                            \<and> currentTime v'
                                = start e + (clampSeekTime (clips s) time - sequenceStart e))
                      \<and> currentPlaybackTime s'
                          = start e + (clampSeekTime (clips s) time - sequenceStart e)"
      by (elim exE conjE)
    show ?thesis
      by (rule exI[of _ e], rule exI[of _ s']) (use e s' in simp)
  qed
  have b: "totalDuration (clips s) = 0
         \<and> seekToGlobalTime time s = Inr (s\<lparr>globalTimeDisplay := 0\<rparr>)
         \<and> (\<not> isPreviewing s \<longrightarrow>
               commitSeekToGlobalTime time s = Inr (s\<lparr>globalTimeDisplay := 0\<rparr>))
         \<and> (globalTimeDisplay s = 0 \<longrightarrow> seekToGlobalTime time s = Inr s)" if "clips s = []"
  proof -
    have "totalDuration (clips s) = 0"
      using that by (simp add: totalDuration_def totalDurationOf_def sequence_def)
    moreover have e: "seekToGlobalTime time s = Inr (s\<lparr>globalTimeDisplay := 0\<rparr>)"
      using that by (rule seek_empty)
    moreover have "seekToGlobalTime time s = Inr s" if "globalTimeDisplay s = 0"
      using e that by simp
    moreover have "commitSeekToGlobalTime time s = Inr (s\<lparr>globalTimeDisplay := 0\<rparr>)"
      if "\<not> isPreviewing s"
      using e that by (simp add: commitSeek_outside_preview)
    ultimately show ?thesis by simp
  qed
  have a': "(\<forall>c \<in> set (clips s). start c \<le> end' c) \<longrightarrow>
         0 \<le> clampSeekTime (clips s) time
         \<and> clampSeekTime (clips s) time \<le> totalDuration (clips s)
         \<and> clampSeekTime (clips s) time
             = (if time < 0 then 0
                else if totalDuration (clips s) < time then totalDuration (clips s) else time)"
    using a by (rule impI)
  from n have n': "clips s \<noteq> [] \<longrightarrow>
         (\<exists>e s'. commitSeekTarget (clips s) time
                    = Some (e, start e + (clampSeekTime (clips s) time - sequenceStart e))
                \<and> seekToGlobalTime time s = Inr s'
                \<and> activeClipId s' = Some (id' e)
                \<and> (video s = None \<longrightarrow> video s' = None)
                \<and> (video s \<noteq> None \<longrightarrow>
                      (\<exists>v'. video s' = Some v'
                            \<and> currentTime v'
                                = start e + (clampSeekTime (clips s) time - sequenceStart e))
                      \<and> currentPlaybackTime s'
                          = start e + (clampSeekTime (clips s) time - sequenceStart e)))"
    by (rule impI)
  from b have b': "clips s = [] \<longrightarrow>
         totalDuration (clips s) = 0
         \<and> seekToGlobalTime time s = Inr (s\<lparr>globalTimeDisplay := 0\<rparr>)
         \<and> (\<not> isPreviewing s \<longrightarrow>
               commitSeekToGlobalTime time s = Inr (s\<lparr>globalTimeDisplay := 0\<rparr>))
         \<and> (globalTimeDisplay s = 0 \<longrightarrow> seekToGlobalTime time s = Inr s)"
    by (rule impI)
  show ?thesis
    by (rule conjI[OF r conjI[OF rc conjI[OF cl conjI[OF a' conjI[OF n' b']]]]])
qed

text \<open>
  The claim as stated, that with an empty clip list every seek leaves the playback state
  unchanged, fails on a player emptied while its display showed five seconds: the seek
  moves the display to zero.
\<close>

theorem seek_empty_counterexample:
  "clips emptiedPlayer = [] \<and> globalTimeDisplay emptiedPlayer = 5
   \<and> seekToGlobalTime 3 emptiedPlayer = Inr (emptiedPlayer\<lparr>globalTimeDisplay := 0\<rparr>)
   \<and> seekToGlobalTime 3 emptiedPlayer \<noteq> Inr emptiedPlayer"
proof -
  have e: "clips emptiedPlayer = []" by (simp add: emptiedPlayer_def)
  have g: "globalTimeDisplay emptiedPlayer = 5" by (simp add: emptiedPlayer_def)
  have s: "seekToGlobalTime 3 emptiedPlayer = Inr (emptiedPlayer\<lparr>globalTimeDisplay := 0\<rparr>)"
    using e by (rule seek_empty)
  have "emptiedPlayer\<lparr>globalTimeDisplay := 0\<rparr> \<noteq> emptiedPlayer"
  proof
    assume "emptiedPlayer\<lparr>globalTimeDisplay := 0\<rparr> = emptiedPlayer"
    then have "globalTimeDisplay (emptiedPlayer\<lparr>globalTimeDisplay := 0\<rparr>) = globalTimeDisplay emptiedPlayer"
      by simp
    then show False using g by simp
  qed
  with e g s show ?thesis by simp
qed

text \<open>
  The paused three-clip player and the emptied player satisfy the hypotheses: a seek to 30
  is clamped to 23 and lands on the third clip at its local time 8.
\<close>

theorem seek_clamps_and_empty_witness:
  "list_all (\<lambda>c. start c \<le> end' c) (clips pausedPlayer) \<and> clips pausedPlayer \<noteq> []
   \<and> video pausedPlayer \<noteq> None
   \<and> clampSeekTime (clips pausedPlayer) 30 = 23
   \<and> (\<exists>s'. seekToGlobalTime 30 pausedPlayer = Inr s' \<and> globalTimeDisplay s' = 23
          \<and> activeClipId s' = Some ''c''
          \<and> (\<exists>v'. video s' = Some v' \<and> currentTime v' = 8) \<and> currentPlaybackTime s' = 8)
   \<and> clips emptiedPlayer = []
   \<and> seekToGlobalTime 3 emptiedPlayer = Inr (emptiedPlayer\<lparr>globalTimeDisplay := 0\<rparr>)"
proof -
  have v: "\<forall>c \<in> set (clips pausedPlayer). start c \<le> end' c"
    and ne: "clips pausedPlayer \<noteq> []" and vid: "video pausedPlayer \<noteq> None"
    by (simp_all add: pausedPlayer_def threeClips_def)
  have la: "list_all (\<lambda>c. start c \<le> end' c) (clips pausedPlayer)"
    using v by (simp add: list_all_iff)
  have e: "clips emptiedPlayer = []" by (simp add: emptiedPlayer_def)
  have c3: "id' (sequence threeClips ! 2) = ''c'' \<and> start (sequence threeClips ! 2) = 0
            \<and> sequenceStart (sequence threeClips ! 2) = 15"
    by (simp add: sequence_def threeClips_def)
  note p = pausedPlayer_seek_30
  note th = seek_clamps_and_empty [of 30 pausedPlayer]
  from th ne obtain e0 s' where
    t: "commitSeekTarget (clips pausedPlayer) 30
          = Some (e0, start e0 + (clampSeekTime (clips pausedPlayer) 30 - sequenceStart e0))"
    and s: "seekToGlobalTime 30 pausedPlayer = Inr s'"
    and a: "activeClipId s' = Some (id' e0)"
    and w: "video pausedPlayer \<noteq> None \<longrightarrow>
              (\<exists>v'. video s' = Some v'
                    \<and> currentTime v' = start e0 + (clampSeekTime (clips pausedPlayer) 30 - sequenceStart e0))
              \<and> currentPlaybackTime s' = start e0 + (clampSeekTime (clips pausedPlayer) 30 - sequenceStart e0)"
    by blast
  from t p have e0: "e0 = sequence threeClips ! 2" by simp
  from th s have g: "globalTimeDisplay s' = 23" using p by auto
  from w vid e0 c3 p have w': "(\<exists>v'. video s' = Some v' \<and> currentTime v' = 8) \<and> currentPlaybackTime s' = 8"
    by simp
  from a e0 c3 have a': "activeClipId s' = Some ''c''" by simp
  have "seekToGlobalTime 3 emptiedPlayer = Inr (emptiedPlayer\<lparr>globalTimeDisplay := 0\<rparr>)"
    using seek_clamps_and_empty [of 3 emptiedPlayer] e by blast
  with la ne vid p s g a' w' e show ?thesis by blast
qed

section \<open>Natural end of a clip\<close>

lemma findIndex_Some_lt: "findIndex P xs = Some i \<Longrightarrow> i < length xs \<and> P (xs ! i)"
proof (induction xs arbitrary: i)
  case Nil
  then show ?case by simp
next
  case (Cons x xs)
  then show ?case by (cases i) (auto split: if_splits)
qed

lemma findIndex_distinct:
  "distinct (map f xs) \<Longrightarrow> j < length xs \<Longrightarrow> findIndex (\<lambda>c. Some (f c) = Some (f (xs ! j))) xs = Some j"
proof (induction xs arbitrary: j)
  case Nil
  then show ?case by simp
next
  case (Cons x xs)
  show ?case
  proof (cases j)
    case 0
    then show ?thesis by simp
  next
    case (Suc k)
    with Cons.prems have k: "k < length xs" and d: "distinct (map f xs)" and nx: "f x \<notin> f ` set xs"
      by simp_all
    from nx k have "f x \<noteq> f (xs ! k)" by (metis imageI nth_mem)
    with Cons.IH[OF d k] Suc show ?thesis by simp
  qed
qed

lemma map_id_sequenceFrom: "map id' (sequenceFrom a cs) = map id' cs"
  by (induction cs arbitrary: a) (simp_all add: Let_def)

lemma activeClip_playToEnd [simp]: "activeClipIndex (playToEnd s) = activeClipIndex s"
  by (simp add: playToEnd_def activeClipIndex_def split: option.split)

lemma playToEnd_fields [simp]:
  "clips (playToEnd s) = clips s" "isPreviewing (playToEnd s) = isPreviewing s"
  "isScrubbing (playToEnd s) = isScrubbing s"
  by (simp_all add: playToEnd_def split: option.split)

lemma playToEnd_video:
  "activeClipIndex s = Some i \<Longrightarrow> video s = Some v \<Longrightarrow>
   video (playToEnd s) = Some (v\<lparr>currentTime := end' (sequence (clips s) ! i)\<rparr>)"
  by (simp add: playToEnd_def activeClip_def)

lemma handleTimeUpdate_advance:
  assumes "\<not> isPreviewing s" and "\<not> isScrubbing s" and "video s = Some vid"
    and "activeClipIndex s = Some i" and "end' (sequence (clips s) ! i) \<le> currentTime vid"
  shows "handleTimeUpdate s =
           s\<lparr>globalTimeDisplay := sequenceStart (sequence (clips s) ! i)
                                    + (currentTime vid - start (sequence (clips s) ! i)),
             currentPlaybackTime := currentTime vid,
             activeClipId := Some (id' (sequence (clips s) ! ((i + 1) mod length (clips s)))),
             video := Some \<lparr>srcAttr = Some (url (sequence (clips s) ! ((i + 1) mod length (clips s)))),
                            currentTime = start (sequence (clips s) ! ((i + 1) mod length (clips s)))\<rparr>,
             isPlaying := True\<rparr>"
  using assms by (simp add: handleTimeUpdate_def Let_def sequence_def)

lemma advance_step:
  assumes np: "\<not> isPreviewing s" and ns: "\<not> isScrubbing s" and v: "video s = Some vid"
    and i: "activeClipIndex s = Some i" and d: "distinct (map id' (clips s))"
  shows "\<not> isPreviewing (advance s) \<and> \<not> isScrubbing (advance s) \<and> video (advance s) \<noteq> None
         \<and> clips (advance s) = clips s
         \<and> activeClipIndex (advance s) = Some ((i + 1) mod length (clips s))"
proof -
  let ?p = "playToEnd s"
  let ?sq = "sequence (clips s)"
  let ?n = "(i + 1) mod length (clips s)"
  have il: "i < length ?sq" using findIndex_Some_lt i by (metis activeClipIndex_def)
  then have "i < length (clips s)" by (simp add: sequence_def)
  then have "0 < length (clips s)" by (rule order.strict_trans1[OF le0])
  then have "?n < length (clips s)" by (rule mod_less_divisor)
  then have n: "?n < length ?sq" by (simp add: sequence_def)
  have pv: "video ?p = Some (vid\<lparr>currentTime := end' (?sq ! i)\<rparr>)"
    using i v by (rule playToEnd_video)
  have "handleTimeUpdate ?p =
           ?p\<lparr>globalTimeDisplay := sequenceStart (sequence (clips ?p) ! i)
                                    + (currentTime (vid\<lparr>currentTime := end' (?sq ! i)\<rparr>) - start (sequence (clips ?p) ! i)),
             currentPlaybackTime := currentTime (vid\<lparr>currentTime := end' (?sq ! i)\<rparr>),
             activeClipId := Some (id' (sequence (clips ?p) ! ((i + 1) mod length (clips ?p)))),
             video := Some \<lparr>srcAttr = Some (url (sequence (clips ?p) ! ((i + 1) mod length (clips ?p)))),
                            currentTime = start (sequence (clips ?p) ! ((i + 1) mod length (clips ?p)))\<rparr>,
             isPlaying := True\<rparr>"
    by (rule handleTimeUpdate_advance) (use np ns pv i in simp_all)
  then have a: "advance s =
           ?p\<lparr>globalTimeDisplay := sequenceStart (?sq ! i) + (end' (?sq ! i) - start (?sq ! i)),
             currentPlaybackTime := end' (?sq ! i),
             activeClipId := Some (id' (?sq ! ?n)),
             video := Some \<lparr>srcAttr = Some (url (?sq ! ?n)), currentTime = start (?sq ! ?n)\<rparr>,
             isPlaying := True\<rparr>"
    by (simp add: advance_def)
  have dd: "distinct (map id' ?sq)" using d by (simp add: sequence_def map_id_sequenceFrom)
  have "activeClipIndex (advance s) = findIndex (\<lambda>c. Some (id' c) = Some (id' (?sq ! ?n))) ?sq"
    by (simp add: a activeClipIndex_def)
  also have "\<dots> = Some ?n" using dd n by (rule findIndex_distinct)
  finally show ?thesis using a np ns by simp
qed

lemma advance_iterate:
  assumes np: "\<not> isPreviewing s" and ns: "\<not> isScrubbing s" and v: "video s \<noteq> None"
    and i: "activeClipIndex s = Some i" and d: "distinct (map id' (clips s))"
  shows "\<not> isPreviewing ((advance ^^ k) s) \<and> \<not> isScrubbing ((advance ^^ k) s)
         \<and> video ((advance ^^ k) s) \<noteq> None \<and> clips ((advance ^^ k) s) = clips s
         \<and> activeClipIndex ((advance ^^ k) s) = Some ((i + k) mod length (clips s))"
proof (induction k)
  case 0
  have "i < length (clips s)" using findIndex_Some_lt i by (metis activeClipIndex_def length_sequenceFrom sequence_def)
  then show ?case using assms by simp
next
  case (Suc k)
  let ?s = "(advance ^^ k) s"
  from Suc obtain vid where vv: "video ?s = Some vid" by auto
  have dk: "distinct (map id' (clips ?s))" using Suc d by simp
  from Suc have ik: "activeClipIndex ?s = Some ((i + k) mod length (clips s))" by simp
  from Suc have npk: "\<not> isPreviewing ?s" and nsk: "\<not> isScrubbing ?s" by simp_all
  from advance_step[OF npk nsk vv ik dk] Suc
  show ?case by (simp add: mod_Suc_eq)
qed

lemma endOfFirstClip_index: "activeClipIndex endOfFirstClip = Some 0"
  by (simp add: endOfFirstClip_def activeClipIndex_def sequence_def threeClips_def)

text \<open>
  Claim C8. In committed playback (no preview, no scrubbing) with the active clip at index
  \<open>i\<close> of a sequence with distinct identifiers, a time update at or after the clip's
  trimmed end makes the next entry active, the first one after the last, puts the element
  on that entry's source at its trimmed start and leaves it playing; the \<open>k\<close>-th advance
  of a playback pass is on entry \<open>(i + k) mod n\<close>, so every entry is reached within
  \<open>n\<close> advances.
\<close>

theorem natural_advance_wraps:
  assumes np: "\<not> isPreviewing s" and ns: "\<not> isScrubbing s" and v: "video s = Some vid"
    and i: "activeClipIndex s = Some i" and d: "distinct (map id' (clips s))"
  shows "i < length (clips s)
       \<and> (end' (sequence (clips s) ! i) \<le> currentTime vid \<longrightarrow>
            activeClipId (handleTimeUpdate s)
              = Some (id' (sequence (clips s) ! ((i + 1) mod length (clips s))))
            \<and> video (handleTimeUpdate s)
              = Some \<lparr>srcAttr = Some (url (sequence (clips s) ! ((i + 1) mod length (clips s)))),
                      currentTime = start (sequence (clips s) ! ((i + 1) mod length (clips s)))\<rparr>
            \<and> isPlaying (handleTimeUpdate s)
            \<and> activeClipIndex (handleTimeUpdate s) = Some ((i + 1) mod length (clips s)))
       \<and> (Suc i = length (clips s) \<longrightarrow> (i + 1) mod length (clips s) = 0)
       \<and> (\<forall>k. activeClipIndex ((advance ^^ k) s) = Some ((i + k) mod length (clips s)))
       \<and> (\<forall>j < length (clips s). \<exists>k < length (clips s).
             activeClipIndex ((advance ^^ k) s) = Some j)"
proof -
  let ?sq = "sequence (clips s)"
  let ?len = "length (clips s)"
  let ?n = "(i + 1) mod ?len"
  have il: "i < ?len"
    using findIndex_Some_lt i by (metis activeClipIndex_def length_sequenceFrom sequence_def)
  then have pos: "0 < ?len" by (rule order.strict_trans1[OF le0])
  then have n: "?n < length ?sq" by (simp add: sequence_def)
  have dd: "distinct (map id' ?sq)" using d by (simp add: sequence_def map_id_sequenceFrom)
  have step: "activeClipId (handleTimeUpdate s) = Some (id' (?sq ! ?n))
            \<and> video (handleTimeUpdate s)
              = Some \<lparr>srcAttr = Some (url (?sq ! ?n)), currentTime = start (?sq ! ?n)\<rparr>
            \<and> isPlaying (handleTimeUpdate s)
            \<and> activeClipIndex (handleTimeUpdate s) = Some ?n"
    if e: "end' (?sq ! i) \<le> currentTime vid"
  proof -
    note h = handleTimeUpdate_advance[OF np ns v i e]
    have "activeClipIndex (handleTimeUpdate s) = findIndex (\<lambda>c. Some (id' c) = Some (id' (?sq ! ?n))) ?sq"
      by (simp add: h activeClipIndex_def)
    also have "\<dots> = Some ?n" using dd n by (rule findIndex_distinct)
    finally show ?thesis by (simp add: h)
  qed
  have wrap: "(i + 1) mod ?len = 0" if "Suc i = ?len"
    using that by (metis Suc_eq_plus1 mod_self)
  have vn: "video s \<noteq> None" using v by simp
  have iter: "activeClipIndex ((advance ^^ k) s) = Some ((i + k) mod ?len)" for k
    using advance_iterate[OF np ns vn i d, of k] by simp
  have reach: "\<exists>k < ?len. activeClipIndex ((advance ^^ k) s) = Some j" if j: "j < ?len" for j
  proof -
    let ?k = "(j + ?len - i) mod ?len"
    have "(i + ?k) mod ?len = (i + (j + ?len - i)) mod ?len" by (simp add: mod_add_right_eq)
    also have "\<dots> = (j + ?len) mod ?len" using il by simp
    also have "\<dots> = j" using j by simp
    finally have "activeClipIndex ((advance ^^ ?k) s) = Some j" using iter by simp
    moreover have "?k < ?len" using pos by (rule mod_less_divisor)
    ultimately show ?thesis by blast
  qed
  from il step wrap iter reach show ?thesis by blast
qed

text \<open>The player at the end of the first of three clips satisfies the hypotheses.\<close>

theorem natural_advance_wraps_witness:
  "\<not> isPreviewing endOfFirstClip \<and> \<not> isScrubbing endOfFirstClip
   \<and> video endOfFirstClip = Some \<lparr>srcAttr = Some ''blob:a'', currentTime = 10\<rparr>
   \<and> activeClipIndex endOfFirstClip = Some 0
   \<and> distinct (map id' (clips endOfFirstClip))
   \<and> end' (sequence (clips endOfFirstClip) ! 0) \<le> 10
   \<and> activeClipId (handleTimeUpdate endOfFirstClip) = Some ''b''
   \<and> video (handleTimeUpdate endOfFirstClip) = Some \<lparr>srcAttr = Some ''blob:b'', currentTime = 0\<rparr>
   \<and> isPlaying (handleTimeUpdate endOfFirstClip)
   \<and> activeClipIndex ((advance ^^ 2) endOfFirstClip) = Some 2
   \<and> activeClipIndex ((advance ^^ 3) endOfFirstClip) = Some 0"
proof -
  have np: "\<not> isPreviewing endOfFirstClip" and ns: "\<not> isScrubbing endOfFirstClip"
    and v: "video endOfFirstClip = Some \<lparr>srcAttr = Some ''blob:a'', currentTime = 10\<rparr>"
    and d: "distinct (map id' (clips endOfFirstClip))"
    and len: "length (clips endOfFirstClip) = 3"
    by (simp_all add: endOfFirstClip_def threeClips_def)
  have e: "end' (sequence (clips endOfFirstClip) ! 0) \<le> 10"
    by (simp add: endOfFirstClip_def threeClips_def sequence_def)
  have n1: "sequence (clips endOfFirstClip) ! 1 = sequence threeClips ! 1"
    by (simp add: endOfFirstClip_def)
  have f: "id' (sequence threeClips ! 1) = ''b'' \<and> url (sequence threeClips ! 1) = ''blob:b''
           \<and> start (sequence threeClips ! 1) = 0"
    by (simp add: threeClips_def sequence_def)
  note th = natural_advance_wraps [OF np ns v endOfFirstClip_index d]
  from th e have "activeClipId (handleTimeUpdate endOfFirstClip)
              = Some (id' (sequence (clips endOfFirstClip) ! ((0 + 1) mod length (clips endOfFirstClip))))
            \<and> video (handleTimeUpdate endOfFirstClip)
              = Some \<lparr>srcAttr = Some (url (sequence (clips endOfFirstClip) ! ((0 + 1) mod length (clips endOfFirstClip)))),
                      currentTime = start (sequence (clips endOfFirstClip) ! ((0 + 1) mod length (clips endOfFirstClip)))\<rparr>
            \<and> isPlaying (handleTimeUpdate endOfFirstClip)"
    by simp
  then have a: "activeClipId (handleTimeUpdate endOfFirstClip) = Some ''b''
     \<and> video (handleTimeUpdate endOfFirstClip) = Some \<lparr>srcAttr = Some ''blob:b'', currentTime = 0\<rparr>
     \<and> isPlaying (handleTimeUpdate endOfFirstClip)"
    using len n1 f by simp
  from th have it: "activeClipIndex ((advance ^^ k) endOfFirstClip) = Some ((0 + k) mod length (clips endOfFirstClip))" for k
    by blast
  have b: "activeClipIndex ((advance ^^ 2) endOfFirstClip) = Some 2"
    using it[of 2] len by simp
  have c: "activeClipIndex ((advance ^^ 3) endOfFirstClip) = Some 0"
    using it[of 3] len by simp
  from np ns v endOfFirstClip_index d e a b c show ?thesis by blast
qed

section \<open>Preview and restore\<close>

lemma find_findIndex:
  "List.find P xs = (case findIndex P xs of None \<Rightarrow> None | Some i \<Rightarrow> Some (xs ! i))"
  by (induction xs) (auto split: option.split)

lemma activeClip_find:
  "activeClip s = List.find (\<lambda>c. Some (id' c) = activeClipId s) (sequence (clips s))"
  by (simp add: activeClip_def activeClipIndex_def find_findIndex)

lemma endPreview_idle: "\<not> isPreviewing s \<Longrightarrow> endPreview s = s"
  by (simp add: endPreview_def)

lemma endPreview_not_previewing: "\<not> isPreviewing (endPreview s)"
  by (simp add: endPreview_def setVideoSrcAndTime_def Let_def split: option.split)

lemma previewing_previewAt:
  assumes "previewing s snap x"
  shows "previewing s snap (previewAtGlobalTime t x)"
proof -
  from assms obtain v where v: "video x = Some v" by (auto simp add: previewing_def)
  show ?thesis
    using assms v by (simp add: previewing_def previewAtGlobalTime_def Let_def)
qed

lemma previewing_previewFrame:
  assumes "previewing s snap x"
  shows "previewing s snap (previewFrame x)"
proof -
  from assms obtain v where v: "video x = Some v" by (auto simp add: previewing_def)
  show ?thesis
    using assms v by (simp add: previewing_def previewFrame_def Let_def split: option.split)
qed

lemma previewing_events:
  "previewing s snap x \<Longrightarrow> previewing s snap (foldl previewEvent x es)"
proof (induction es arbitrary: x)
  case Nil
  then show ?case by simp
next
  case (Cons e es)
  have "previewing s snap (previewEvent x e)"
    using Cons.prems by (cases e) (simp_all add: previewing_previewAt previewing_previewFrame)
  then show ?case using Cons.IH by simp
qed

lemma previewAt_accepted:
  assumes "hasClips s" and "\<not> isPlaying s" and "video s = Some vid" and "\<not> isPreviewing s"
  shows "previewing s \<lparr>src = srcAttr vid, localTime = currentTime vid, globalTime = globalTimeDisplay s\<rparr>
           (previewAtGlobalTime t s)"
  using assms by (simp add: previewing_def previewAtGlobalTime_def Let_def)

lemma previewAt_ignored:
  assumes "\<not> hasClips s \<or> isPlaying s \<or> video s = None"
  shows "previewAtGlobalTime t s = s"
  using assms by (auto simp add: previewAtGlobalTime_def)

lemma ignored_events:
  assumes "\<not> hasClips s \<or> isPlaying s \<or> video s = None" and "\<not> previewRaf s"
  shows "foldl previewEvent s es = s"
proof (induction es)
  case Nil
  then show ?case by simp
next
  case (Cons e es)
  have "previewEvent s e = s"
    using assms by (cases e) (simp_all add: previewAt_ignored previewFrame_def)
  then show ?case using Cons.IH by simp
qed

lemma endPreview_previewing:
  assumes p: "previewing s \<lparr>src = srcAttr vid, localTime = currentTime vid, globalTime = g\<rparr> x"
    and ac: "activeClip s = Some ac" and sv: "srcAttr vid = Some (url ac)" and ne: "url ac \<noteq> []"
  shows "video (endPreview x) = Some vid \<and> globalTimeDisplay (endPreview x) = g
         \<and> clips (endPreview x) = clips s \<and> activeClipId (endPreview x) = activeClipId s
         \<and> isPlaying (endPreview x) = isPlaying s
         \<and> previewRestore (endPreview x) = None \<and> previewPendingTime (endPreview x) = None
         \<and> \<not> previewRaf (endPreview x)"
proof -
  from p obtain v where v: "video x = Some v" by (auto simp add: previewing_def)
  have f: "List.find (\<lambda>c. Some (id' c) = activeClipId x) (sequence (clips x)) = Some ac"
    using p ac by (simp add: activeClip_find previewing_def)
  have vid: "\<lparr>srcAttr = Some (url ac), currentTime = currentTime vid\<rparr> = vid"
    using sv by (cases vid) simp
  show ?thesis
    using p v f ne vid by (simp add: endPreview_def previewing_def setVideoSrcAndTime_def Let_def)
qed

lemma pausedPlayer_ready:
  "\<not> isPreviewing pausedPlayer \<and> \<not> previewRaf pausedPlayer \<and> showsActiveClip pausedPlayer
   \<and> hasClips pausedPlayer \<and> \<not> isPlaying pausedPlayer"
  by (simp add: pausedPlayer_def showsActiveClip_def hasClips_def activeClip_def activeClipIndex_def
      sequence_def threeClips_def)

lemma pausedPlayer_preview_moves:
  "video (foldl previewEvent (previewAtGlobalTime 12 pausedPlayer) [Frame, PreviewAt 20, Frame])
     = Some \<lparr>srcAttr = Some ''blob:c'', currentTime = 5\<rparr>"
  by (simp add: pausedPlayer_def previewAtGlobalTime_def previewFrame_def hasClips_def activeClip_def
      activeClipIndex_def targetClipAt_def inWindow_def totalDuration_def totalDurationOf_def
      sequence_def threeClips_def Let_def)

text \<open>
  Claim C5. Take a state outside a preview, with no preview frame callback pending and the
  visible element on the active clip. An accepted \<^verbatim>\<open>previewAtGlobalTime\<close> (clips present,
  paused, element mounted) records the element's source, its local time and the displayed
  global position. After any further preview requests and frame callbacks,
  \<^verbatim>\<open>endPreview\<close> leaves the element on the source and local time it had before the
  preview and the display on the position it showed (a request that is ignored changes
  nothing to restore). \<^verbatim>\<open>endPreview\<close> outside a preview returns the state as it is, so
  a second call changes nothing.
\<close>

theorem preview_restores_snapshot:
  assumes np: "\<not> isPreviewing s" and nr: "\<not> previewRaf s" and sh: "showsActiveClip s"
  shows "(\<forall>vid. hasClips s \<and> \<not> isPlaying s \<and> video s = Some vid \<longrightarrow>
            isPreviewing (previewAtGlobalTime t s)
            \<and> previewRestore (previewAtGlobalTime t s)
                = Some \<lparr>src = srcAttr vid, localTime = currentTime vid,
                        globalTime = globalTimeDisplay s\<rparr>)
       \<and> video (endPreview (foldl previewEvent (previewAtGlobalTime t s) es)) = video s
       \<and> globalTimeDisplay (endPreview (foldl previewEvent (previewAtGlobalTime t s) es))
           = globalTimeDisplay s
       \<and> \<not> isPreviewing (endPreview (foldl previewEvent (previewAtGlobalTime t s) es))
       \<and> endPreview (endPreview (foldl previewEvent (previewAtGlobalTime t s) es))
           = endPreview (foldl previewEvent (previewAtGlobalTime t s) es)
       \<and> endPreview s = s"
proof -
  let ?e = "endPreview (foldl previewEvent (previewAtGlobalTime t s) es)"
  have cap: "isPreviewing (previewAtGlobalTime t s)
            \<and> previewRestore (previewAtGlobalTime t s)
                = Some \<lparr>src = srcAttr vid, localTime = currentTime vid,
                        globalTime = globalTimeDisplay s\<rparr>"
    if "hasClips s \<and> \<not> isPlaying s \<and> video s = Some vid" for vid
    using previewAt_accepted[of s vid t] that np by (simp add: previewing_def)
  have idle: "endPreview s = s" using np by (rule endPreview_idle)
  have npe: "\<not> isPreviewing ?e" by (rule endPreview_not_previewing)
  then have idem: "endPreview ?e = ?e" by (rule endPreview_idle)
  have rest: "video ?e = video s \<and> globalTimeDisplay ?e = globalTimeDisplay s"
  proof (cases "\<not> hasClips s \<or> isPlaying s \<or> video s = None")
    case True
    then have "previewAtGlobalTime t s = s" by (rule previewAt_ignored)
    moreover have "foldl previewEvent s es = s" using True nr by (rule ignored_events)
    ultimately show ?thesis using idle by simp
  next
    case False
    then obtain vid where h: "hasClips s" and pl: "\<not> isPlaying s" and v: "video s = Some vid"
      by auto
    from h obtain ac where ac: "activeClip s = Some ac" by (auto simp add: hasClips_def)
    from sh ac v have sv: "srcAttr vid = Some (url ac)" and ne: "url ac \<noteq> []"
      by (simp_all add: showsActiveClip_def)
    let ?snap = "\<lparr>src = srcAttr vid, localTime = currentTime vid, globalTime = globalTimeDisplay s\<rparr>"
    have "previewing s ?snap (previewAtGlobalTime t s)"
      using h pl v np by (rule previewAt_accepted)
    then have "previewing s ?snap (foldl previewEvent (previewAtGlobalTime t s) es)"
      by (rule previewing_events)
    from endPreview_previewing[OF this ac sv ne] v show ?thesis by simp
  qed
  from cap idle npe idem rest show ?thesis by blast
qed

text \<open>
  The paused three-clip player satisfies the hypotheses; its preview moves the element to
  the third clip before the end of the preview brings it back.
\<close>

theorem preview_restores_snapshot_witness:
  "\<not> isPreviewing pausedPlayer \<and> \<not> previewRaf pausedPlayer \<and> showsActiveClip pausedPlayer
   \<and> hasClips pausedPlayer \<and> \<not> isPlaying pausedPlayer
   \<and> video pausedPlayer = Some \<lparr>srcAttr = Some ''blob:a'', currentTime = 4\<rparr>
   \<and> previewRestore (previewAtGlobalTime 12 pausedPlayer)
        = Some \<lparr>src = Some ''blob:a'', localTime = 4, globalTime = 4\<rparr>
   \<and> video (foldl previewEvent (previewAtGlobalTime 12 pausedPlayer) [Frame, PreviewAt 20, Frame])
        = Some \<lparr>srcAttr = Some ''blob:c'', currentTime = 5\<rparr>
   \<and> video (endPreview (foldl previewEvent (previewAtGlobalTime 12 pausedPlayer) [Frame, PreviewAt 20, Frame]))
        = Some \<lparr>srcAttr = Some ''blob:a'', currentTime = 4\<rparr>
   \<and> globalTimeDisplay (endPreview (foldl previewEvent (previewAtGlobalTime 12 pausedPlayer) [Frame, PreviewAt 20, Frame]))
        = 4"
proof -
  have np: "\<not> isPreviewing pausedPlayer" and nr: "\<not> previewRaf pausedPlayer"
    and sh: "showsActiveClip pausedPlayer" and h: "hasClips pausedPlayer"
    and pl: "\<not> isPlaying pausedPlayer"
    using pausedPlayer_ready by simp_all
  have v: "video pausedPlayer = Some \<lparr>srcAttr = Some ''blob:a'', currentTime = 4\<rparr>"
    and g: "globalTimeDisplay pausedPlayer = 4"
    by (simp_all add: pausedPlayer_def)
  note th = preview_restores_snapshot [OF np nr sh, of 12 "[Frame, PreviewAt 20, Frame]"]
  from th h pl v g have a: "previewRestore (previewAtGlobalTime 12 pausedPlayer)
        = Some \<lparr>src = Some ''blob:a'', localTime = 4, globalTime = 4\<rparr>"
    by simp
  from th v have b: "video (endPreview (foldl previewEvent (previewAtGlobalTime 12 pausedPlayer) [Frame, PreviewAt 20, Frame]))
        = Some \<lparr>srcAttr = Some ''blob:a'', currentTime = 4\<rparr>"
    by simp
  from th g have c: "globalTimeDisplay (endPreview (foldl previewEvent (previewAtGlobalTime 12 pausedPlayer) [Frame, PreviewAt 20, Frame])) = 4"
    by simp
  from np nr sh h pl v a pausedPlayer_preview_moves b c show ?thesis by blast
qed

section \<open>The timeline preview pipeline\<close>

lemma workerTarget_nonempty:
  assumes "cl \<noteq> []"
  shows "\<exists>e lt. workerTarget cl t = Some (e, lt)"
proof -
  have "sequence cl \<noteq> []" using assms by (simp add: sequence_def)
  then have "\<exists>e. targetClipAt (sequence cl) (max 0 (min t (totalDuration cl))) = Some e"
    by (simp add: targetClipAt_def lastEntry_def split: option.split)
  then show ?thesis
    using \<open>sequence cl \<noteq> []\<close> by (auto simp add: workerTarget_def Let_def)
qed

lemma thumbnailFor_single:
  assumes "cl \<noteq> []"
  shows "\<exists>u lt. thumbnailFor cl t = [(u, lt)]"
  using workerTarget_nonempty[OF assms, of t] by (auto simp add: thumbnailFor_def)

lemma update_running:
  assumes "pipelineHasClips q" and "areControlsVisible q" and "0 < rectWidth"
    and "timelinePreviewWorkerRunning q"
  shows "updateTimelinePreviewFromClientX env rectLeft rectWidth q x =
           q\<lparr>timelinePreviewPending :=
                Some (pointerSeekTime x rectLeft rectWidth (pipelineClips q),
                      clamp (x - rectLeft) 0 rectWidth),
             timelinePreviewCaptureTime := Some (pointerSeekTime x rectLeft rectWidth (pipelineClips q))\<rparr>"
  using assms by (simp add: updateTimelinePreviewFromClientX_def Let_def)

lemma requested_update:
  assumes g: "pipelineHasClips s" "areControlsVisible s" "0 < rectWidth" "timelinePreviewWorkerRunning s"
    and r: "requested s t q"
  shows "requested s (pointerSeekTime x rectLeft rectWidth (pipelineClips s))
           (updateTimelinePreviewFromClientX env rectLeft rectWidth q x)"
proof -
  from r obtain p where q: "q = s\<lparr>timelinePreviewPending := p, timelinePreviewCaptureTime := Some t\<rparr>"
    by (auto simp add: requested_def)
  have "pipelineHasClips q" "areControlsVisible q" "timelinePreviewWorkerRunning q"
    and c: "pipelineClips q = pipelineClips s"
    using g q by simp_all
  from update_running[OF this(1,2) g(3) this(3), where env = env and rectLeft = rectLeft and x = x] c
  have e: "updateTimelinePreviewFromClientX env rectLeft rectWidth q x =
           q\<lparr>timelinePreviewPending :=
                Some (pointerSeekTime x rectLeft rectWidth (pipelineClips s),
                      clamp (x - rectLeft) 0 rectWidth),
             timelinePreviewCaptureTime := Some (pointerSeekTime x rectLeft rectWidth (pipelineClips s))\<rparr>"
    by simp
  have "q\<lparr>timelinePreviewPending :=
                Some (pointerSeekTime x rectLeft rectWidth (pipelineClips s),
                      clamp (x - rectLeft) 0 rectWidth),
             timelinePreviewCaptureTime := Some (pointerSeekTime x rectLeft rectWidth (pipelineClips s))\<rparr>
        = s\<lparr>timelinePreviewPending :=
                Some (pointerSeekTime x rectLeft rectWidth (pipelineClips s),
                      clamp (x - rectLeft) 0 rectWidth),
             timelinePreviewCaptureTime := Some (pointerSeekTime x rectLeft rectWidth (pipelineClips s))\<rparr>"
    by (simp add: q)
  then show ?thesis unfolding requested_def e by blast
qed

lemma requested_first:
  assumes g: "pipelineHasClips s" "areControlsVisible s" "0 < rectWidth" "timelinePreviewWorkerRunning s"
  shows "requested s (pointerSeekTime x rectLeft rectWidth (pipelineClips s))
           (updateTimelinePreviewFromClientX env rectLeft rectWidth s x)"
proof -
  have e: "updateTimelinePreviewFromClientX env rectLeft rectWidth s x =
           s\<lparr>timelinePreviewPending :=
                Some (pointerSeekTime x rectLeft rectWidth (pipelineClips s),
                      clamp (x - rectLeft) 0 rectWidth),
             timelinePreviewCaptureTime := Some (pointerSeekTime x rectLeft rectWidth (pipelineClips s))\<rparr>"
    using g by (rule update_running)
  show ?thesis unfolding requested_def e by blast
qed

lemma requested_burst:
  assumes g: "pipelineHasClips s" "areControlsVisible s" "0 < rectWidth" "timelinePreviewWorkerRunning s"
  shows "requested s t q \<Longrightarrow>
         requested s (if xs = [] then t else pointerSeekTime (last xs) rectLeft rectWidth (pipelineClips s))
           (foldl (updateTimelinePreviewFromClientX env rectLeft rectWidth) q xs)"
proof (induction xs arbitrary: q t)
  case Nil
  then show ?case by simp
next
  case (Cons x xs)
  have "requested s (pointerSeekTime x rectLeft rectWidth (pipelineClips s))
          (updateTimelinePreviewFromClientX env rectLeft rectWidth q x)"
    using g Cons.prems by (rule requested_update)
  from Cons.IH[OF this] show ?case by (cases "xs = []") simp_all
qed

lemma burst_requested:
  assumes g: "pipelineHasClips s" "areControlsVisible s" "0 < rectWidth" "timelinePreviewWorkerRunning s"
    and ne: "xs \<noteq> []"
  shows "requested s (pointerSeekTime (last xs) rectLeft rectWidth (pipelineClips s))
           (foldl (updateTimelinePreviewFromClientX env rectLeft rectWidth) s xs)"
proof -
  from ne obtain x ys where xs: "xs = x # ys" by (cases xs) auto
  have "requested s (pointerSeekTime x rectLeft rectWidth (pipelineClips s))
          (updateTimelinePreviewFromClientX env rectLeft rectWidth s x)"
    using g by (rule requested_first)
  from requested_burst[OF g this, where xs = ys and env = env] xs show ?thesis
    by (cases "ys = []") simp_all
qed

lemma idling_resume:
  assumes "idling q"
  shows "idling (workerResume env q) \<and> thumbnails (workerResume env q) = thumbnails q"
  using assms
  by (auto simp add: idling_def workerResume_def loopHead_def idleIteration_def exitWorker_def Let_def
      split: WorkerPhase.split)

lemma idling_iterate:
  assumes "idling q"
  shows "idling ((workerResume env ^^ n) q) \<and> thumbnails ((workerResume env ^^ n) q) = thumbnails q"
proof (induction n)
  case 0
  then show ?case using assms by simp
next
  case (Suc n)
  then show ?case using idling_resume[of "(workerResume env ^^ n) q" env] by simp
qed

lemma pickup_requested:
  assumes r: "requested s t q" and tok: "workerToken s = timelinePreviewToken s"
    and env: "surfacesMounted env" "contextAvailable env"
    and th: "thumbnailFor (pipelineClips s) t = [(u, lt)]"
  shows "timelinePreviewCaptureTime (loopHead env q) = None
         \<and> workerPhase (loopHead env q) = Capturing u lt
         \<and> workerToken (loopHead env q) = timelinePreviewToken (loopHead env q)
         \<and> thumbnails (loopHead env q) = thumbnails s"
proof -
  from r obtain p where q: "q = s\<lparr>timelinePreviewPending := p, timelinePreviewCaptureTime := Some t\<rparr>"
    by (auto simp add: requested_def)
  from th obtain e where w: "workerTarget (pipelineClips s) t = Some (e, lt)" and u: "u = url e"
    by (auto simp add: thumbnailFor_def split: option.splits)
  show ?thesis using q tok env w u by (simp add: loopHead_def Let_def)
qed

lemma draw_then_idle:
  assumes c: "timelinePreviewCaptureTime q = None" and ph: "workerPhase q = Capturing u lt"
    and tok: "workerToken q = timelinePreviewToken q"
    and env: "metadataReady env" "drawSucceeds env"
  shows "idling (workerResume env q) \<and> thumbnails (workerResume env q) = thumbnails q @ [(u, lt)]"
  using assms
  by (simp add: idling_def workerResume_def loopHead_def idleIteration_def exitWorker_def Let_def)

lemma requested_fields:
  "requested s t q \<Longrightarrow>
   timelinePreviewCaptureTime q = Some t \<and> thumbnails q = thumbnails s \<and> workerPhase q = workerPhase s
   \<and> workerToken q = workerToken s \<and> timelinePreviewToken q = timelinePreviewToken s"
  by (auto simp add: requested_def)

lemma resume_twice: "(f ^^ (n + 2)) x = (f ^^ n) (f (f x))"
  by (induction n) (simp_all add: numeral_2_eq_2)

lemma pointer_200: "pointerSeekTime 200 0 230 threeClips = 20"
  by (simp add: pointerSeekTime_def clamp_def threeClips_total Let_def)

lemma thumbnail_at_20: "thumbnailFor threeClips 20 = [(''blob:c'', 5)]"
  by (simp add: thumbnailFor_def workerTarget_def targetClipAt_def inWindow_def totalDuration_def
      totalDurationOf_def sequence_def threeClips_def Let_def)

lemma threeClips_targets:
  "workerTarget threeClips 1 = Some (sequence threeClips ! 0, 1)"
  "workerTarget threeClips 20 = Some (sequence threeClips ! 2, 5)"
  by (simp_all add: workerTarget_def targetClipAt_def inWindow_def totalDuration_def
      totalDurationOf_def sequence_def threeClips_def Let_def)

lemma threeClips_urls:
  "url (sequence threeClips ! 0) = ''blob:a''" "url (sequence threeClips ! 2) = ''blob:c''"
  by (simp_all add: sequence_def threeClips_def)

lemma pointer_times:
  "pointerSeekTime 10 0 230 threeClips = 1" "pointerSeekTime 50 0 230 threeClips = 5"
  "pointerSeekTime 120 0 230 threeClips = 12" "pointerSeekTime 180 0 230 threeClips = 18"
  "pointerSeekTime 200 0 230 threeClips = 20"
  by (simp_all add: pointerSeekTime_def clamp_def threeClips_total Let_def)

text \<open>
  Hiding the preview empties the cells and moves the token on: a suspended worker with the
  old token stops at its next step and draws nothing.
\<close>

lemma hide_cancels_worker:
  assumes "workerToken s = timelinePreviewToken s"
  shows "thumbnails (workerResume env (hideTimelinePreview s)) = thumbnails s
         \<and> workerPhase (workerResume env (hideTimelinePreview s)) = NoWorker"
  using assms
  by (simp add: workerResume_def hideTimelinePreview_def loopHead_def exitWorker_def
      split: WorkerPhase.split)

text \<open>A cell that holds a time is a request for that time.\<close>

lemma requested_self: "timelinePreviewCaptureTime q = Some t \<Longrightarrow> requested q t q"
proof -
  assume a: "timelinePreviewCaptureTime q = Some t"
  have "q = q\<lparr>timelinePreviewPending := timelinePreviewPending q, timelinePreviewCaptureTime := Some t\<rparr>"
    using a by (cases q) simp
  then show ?thesis unfolding requested_def by blast
qed

text \<open>
  A suspended worker that finds a request finishes the frame it was waiting for, if any,
  draws the requested frame and then idles.
\<close>

lemma drain_requested:
  assumes r: "requested s t q" and tok: "workerToken s = timelinePreviewToken s"
    and cl: "pipelineClips s \<noteq> []"
    and env: "surfacesMounted env" "contextAvailable env" "metadataReady env" "drawSucceeds env"
  shows "(workerPhase s = Polling \<longrightarrow>
            (\<forall>n. thumbnails ((workerResume env ^^ (n + 2)) q)
                 = thumbnails s @ thumbnailFor (pipelineClips s) t))
       \<and> (\<forall>u0 lt0. workerPhase s = Capturing u0 lt0 \<longrightarrow>
            (\<forall>n. thumbnails ((workerResume env ^^ (n + 2)) q)
                 = thumbnails s @ (u0, lt0) # thumbnailFor (pipelineClips s) t))"
proof -
  note f = requested_fields[OF r]
  from thumbnailFor_single[OF cl, of t] obtain u lt
    where th: "thumbnailFor (pipelineClips s) t = [(u, lt)]" by blast
  have polling: "thumbnails ((workerResume env ^^ (n + 2)) q) = thumbnails s @ [(u, lt)]"
    if ph: "workerPhase s = Polling" for n
  proof -
    have "workerResume env q = loopHead env q"
      using f ph by (simp add: workerResume_def)
    with pickup_requested[OF r tok env(1,2) th]
    have p: "timelinePreviewCaptureTime (workerResume env q) = None"
        "workerPhase (workerResume env q) = Capturing u lt"
        "workerToken (workerResume env q) = timelinePreviewToken (workerResume env q)"
        "thumbnails (workerResume env q) = thumbnails s"
      by simp_all
    from draw_then_idle[OF p(1,2,3) env(3,4)] p(4)
    have "idling (workerResume env (workerResume env q))"
      and "thumbnails (workerResume env (workerResume env q)) = thumbnails s @ [(u, lt)]"
      by simp_all
    with idling_iterate[where q = "workerResume env (workerResume env q)" and env = env and n = n]
    show ?thesis unfolding resume_twice by simp
  qed
  have capturing: "thumbnails ((workerResume env ^^ (n + 2)) q) = thumbnails s @ (u0, lt0) # [(u, lt)]"
    if ph: "workerPhase s = Capturing u0 lt0" for n u0 lt0
  proof -
    let ?d = "s\<lparr>thumbnails := thumbnails s @ [(u0, lt0)]\<rparr>"
    have r1: "workerResume env q = loopHead env (q\<lparr>thumbnails := thumbnails q @ [(u0, lt0)]\<rparr>)"
      using f ph tok env by (simp add: workerResume_def)
    from r obtain p where q: "q = s\<lparr>timelinePreviewPending := p, timelinePreviewCaptureTime := Some t\<rparr>"
      by (auto simp add: requested_def)
    have "q\<lparr>thumbnails := thumbnails q @ [(u0, lt0)]\<rparr>
            = ?d\<lparr>timelinePreviewPending := p, timelinePreviewCaptureTime := Some t\<rparr>"
      by (subst (1 2) q) simp
    then have rd: "requested ?d t (q\<lparr>thumbnails := thumbnails q @ [(u0, lt0)]\<rparr>)"
      unfolding requested_def by blast
    have tokd: "workerToken ?d = timelinePreviewToken ?d" using tok by simp
    have thd: "thumbnailFor (pipelineClips ?d) t = [(u, lt)]" using th by simp
    from pickup_requested[OF rd tokd env(1,2) thd] r1
    have p: "timelinePreviewCaptureTime (workerResume env q) = None"
        "workerPhase (workerResume env q) = Capturing u lt"
        "workerToken (workerResume env q) = timelinePreviewToken (workerResume env q)"
        "thumbnails (workerResume env q) = thumbnails s @ [(u0, lt0)]"
      by simp_all
    from draw_then_idle[OF p(1,2,3) env(3,4)] p(4)
    have "idling (workerResume env (workerResume env q))"
      and "thumbnails (workerResume env (workerResume env q)) = thumbnails s @ [(u0, lt0)] @ [(u, lt)]"
      by simp_all
    with idling_iterate[where q = "workerResume env (workerResume env q)" and env = env and n = n]
    show ?thesis unfolding resume_twice by simp
  qed
  from th polling capturing show ?thesis by simp
qed

text \<open>The first request of a burst that finds no worker, by what the new worker finds.\<close>

lemma first_request_unmounted:
  assumes g: "pipelineHasClips s" "areControlsVisible s" "0 < rectWidth"
    and nr: "\<not> timelinePreviewWorkerRunning s" and um: "\<not> surfacesMounted env0"
  shows "updateTimelinePreviewFromClientX env0 rectLeft rectWidth s x =
           s\<lparr>timelinePreviewPending :=
                Some (pointerSeekTime x rectLeft rectWidth (pipelineClips s),
                      clamp (x - rectLeft) 0 rectWidth),
             timelinePreviewCaptureTime := Some (pointerSeekTime x rectLeft rectWidth (pipelineClips s)),
             timelinePreviewWorkerRunning := True,
             workerToken := timelinePreviewToken s,
             idleFrames := 0,
             workerPhase := Polling\<rparr>"
  using assms by (simp add: updateTimelinePreviewFromClientX_def loopHead_def Let_def)

lemma first_request_mounted:
  assumes g: "pipelineHasClips s" "areControlsVisible s" "0 < rectWidth"
    and nr: "\<not> timelinePreviewWorkerRunning s"
    and m: "surfacesMounted env0" "contextAvailable env0"
    and th: "thumbnailFor (pipelineClips s) (pointerSeekTime x rectLeft rectWidth (pipelineClips s)) = [(u, lt)]"
  shows "updateTimelinePreviewFromClientX env0 rectLeft rectWidth s x =
           s\<lparr>timelinePreviewPending :=
                Some (pointerSeekTime x rectLeft rectWidth (pipelineClips s),
                      clamp (x - rectLeft) 0 rectWidth),
             timelinePreviewCaptureTime := None,
             timelinePreviewWorkerRunning := True,
             workerToken := timelinePreviewToken s,
             idleFrames := 0,
             captureSrc := Some u,
             workerPhase := Capturing u lt\<rparr>"
proof -
  from th obtain e where w: "workerTarget (pipelineClips s) (pointerSeekTime x rectLeft rectWidth (pipelineClips s)) = Some (e, lt)"
    and u: "u = url e"
    by (auto simp add: thumbnailFor_def split: option.splits)
  show ?thesis
    using g nr m w u by (simp add: updateTimelinePreviewFromClientX_def loopHead_def Let_def)
qed

text \<open>A burst that finds a live worker suspended.\<close>

lemma suspended_burst:
  assumes g: "pipelineHasClips s" "areControlsVisible s" "0 < rectWidth" "timelinePreviewWorkerRunning s"
    and cl: "pipelineClips s \<noteq> []" and tok: "workerToken s = timelinePreviewToken s"
    and env: "surfacesMounted env" "contextAvailable env" "metadataReady env" "drawSucceeds env"
    and ne: "xs \<noteq> []"
  shows "timelinePreviewCaptureTime (foldl (updateTimelinePreviewFromClientX env0 rectLeft rectWidth) s xs)
           = Some (pointerSeekTime (last xs) rectLeft rectWidth (pipelineClips s))
       \<and> thumbnails (foldl (updateTimelinePreviewFromClientX env0 rectLeft rectWidth) s xs) = thumbnails s
       \<and> (workerPhase s = Polling \<longrightarrow>
            (\<forall>n. thumbnails ((workerResume env ^^ (n + 2))
                     (foldl (updateTimelinePreviewFromClientX env0 rectLeft rectWidth) s xs))
                 = thumbnails s
                   @ thumbnailFor (pipelineClips s)
                       (pointerSeekTime (last xs) rectLeft rectWidth (pipelineClips s))))
       \<and> (\<forall>u0 lt0. workerPhase s = Capturing u0 lt0 \<longrightarrow>
            (\<forall>n. thumbnails ((workerResume env ^^ (n + 2))
                     (foldl (updateTimelinePreviewFromClientX env0 rectLeft rectWidth) s xs))
                 = thumbnails s @ (u0, lt0)
                   # thumbnailFor (pipelineClips s)
                       (pointerSeekTime (last xs) rectLeft rectWidth (pipelineClips s))))"
proof -
  have r: "requested s (pointerSeekTime (last xs) rectLeft rectWidth (pipelineClips s))
             (foldl (updateTimelinePreviewFromClientX env0 rectLeft rectWidth) s xs)"
    using g ne by (rule burst_requested)
  note f = requested_fields[OF r]
  note d = drain_requested[OF r tok cl env]
  from f d show ?thesis by simp
qed

text \<open>
  A burst that starts the worker while the hidden element or the canvas is not mounted: the
  new worker waits before it reads the cell, so the whole burst is overwritten in the cell.
\<close>

lemma rest_unmounted_burst:
  assumes g: "pipelineHasClips s" "areControlsVisible s" "0 < rectWidth"
    and nr: "\<not> timelinePreviewWorkerRunning s" and um: "\<not> surfacesMounted env0"
    and cl: "pipelineClips s \<noteq> []"
    and env: "surfacesMounted env" "contextAvailable env" "metadataReady env" "drawSucceeds env"
    and ne: "xs \<noteq> []"
  shows "thumbnails ((workerResume env ^^ (n + 2))
           (foldl (updateTimelinePreviewFromClientX env0 rectLeft rectWidth) s xs))
         = thumbnails s
           @ thumbnailFor (pipelineClips s)
               (pointerSeekTime (last xs) rectLeft rectWidth (pipelineClips s))"
proof -
  from ne obtain x ys where xs: "xs = x # ys" by (cases xs) auto
  let ?t1 = "pointerSeekTime x rectLeft rectWidth (pipelineClips s)"
  let ?q = "s\<lparr>timelinePreviewPending := Some (?t1, clamp (x - rectLeft) 0 rectWidth),
             timelinePreviewCaptureTime := Some ?t1,
             timelinePreviewWorkerRunning := True,
             workerToken := timelinePreviewToken s,
             idleFrames := 0,
             workerPhase := Polling\<rparr>"
  have q: "updateTimelinePreviewFromClientX env0 rectLeft rectWidth s x = ?q"
    using g nr um by (rule first_request_unmounted)
  have gq: "pipelineHasClips ?q" "areControlsVisible ?q" "0 < rectWidth" "timelinePreviewWorkerRunning ?q"
    using g by simp_all
  have "requested ?q ?t1 ?q" by (rule requested_self) simp
  from requested_burst[OF gq this, where xs = ys and env = env0 and rectLeft = rectLeft]
  have r: "requested ?q (pointerSeekTime (last xs) rectLeft rectWidth (pipelineClips s))
             (foldl (updateTimelinePreviewFromClientX env0 rectLeft rectWidth) s xs)"
    using xs q by (cases "ys = []") simp_all
  have tokq: "workerToken ?q = timelinePreviewToken ?q" by simp
  have clq: "pipelineClips ?q \<noteq> []" using cl by simp
  from drain_requested[OF r tokq clq env] show ?thesis by simp
qed

text \<open>
  A burst that starts the worker with both surfaces mounted: the new worker takes the first
  position before its first wait.
\<close>

lemma rest_mounted_burst:
  assumes g: "pipelineHasClips s" "areControlsVisible s" "0 < rectWidth"
    and nr: "\<not> timelinePreviewWorkerRunning s"
    and m: "surfacesMounted env0" "contextAvailable env0"
    and cl: "pipelineClips s \<noteq> []"
    and env: "surfacesMounted env" "contextAvailable env" "metadataReady env" "drawSucceeds env"
    and ne: "xs \<noteq> []"
  shows "thumbnails ((workerResume env ^^ (n + 2))
           (foldl (updateTimelinePreviewFromClientX env0 rectLeft rectWidth) s xs))
         = thumbnails s
           @ thumbnailFor (pipelineClips s)
               (pointerSeekTime (hd xs) rectLeft rectWidth (pipelineClips s))
           @ (if tl xs = [] then []
              else thumbnailFor (pipelineClips s)
                     (pointerSeekTime (last xs) rectLeft rectWidth (pipelineClips s)))"
proof -
  from ne obtain x ys where xs: "xs = x # ys" by (cases xs) auto
  let ?t1 = "pointerSeekTime x rectLeft rectWidth (pipelineClips s)"
  from thumbnailFor_single[OF cl, of ?t1] obtain u lt
    where th: "thumbnailFor (pipelineClips s) ?t1 = [(u, lt)]" by blast
  let ?q = "s\<lparr>timelinePreviewPending := Some (?t1, clamp (x - rectLeft) 0 rectWidth),
             timelinePreviewCaptureTime := None,
             timelinePreviewWorkerRunning := True,
             workerToken := timelinePreviewToken s,
             idleFrames := 0,
             captureSrc := Some u,
             workerPhase := Capturing u lt\<rparr>"
  have q: "updateTimelinePreviewFromClientX env0 rectLeft rectWidth s x = ?q"
    using g nr m th by (rule first_request_mounted)
  have tokq: "workerToken ?q = timelinePreviewToken ?q" by simp
  have phq: "workerPhase ?q = Capturing u lt" by simp
  show ?thesis
  proof (cases "ys = []")
    case True
    have c: "timelinePreviewCaptureTime ?q = None" by simp
    from draw_then_idle[OF c phq tokq env(3,4)]
    have i: "idling (workerResume env ?q)"
      and t: "thumbnails (workerResume env ?q) = thumbnails s @ [(u, lt)]"
      by simp_all
    from idling_resume[OF i, of env] t
    have i2: "idling (workerResume env (workerResume env ?q))"
      and t2: "thumbnails (workerResume env (workerResume env ?q)) = thumbnails s @ [(u, lt)]"
      by simp_all
    from idling_iterate[OF i2, where env = env and n = n] t2
    have "thumbnails ((workerResume env ^^ (n + 2)) ?q) = thumbnails s @ [(u, lt)]"
      unfolding resume_twice by simp
    then show ?thesis using True xs q th by simp
  next
    case False
    have gq: "pipelineHasClips ?q" "areControlsVisible ?q" "0 < rectWidth" "timelinePreviewWorkerRunning ?q"
      using g by simp_all
    from burst_requested[OF gq False, where env = env0 and rectLeft = rectLeft]
    have r: "requested ?q (pointerSeekTime (last ys) rectLeft rectWidth (pipelineClips s))
               (foldl (updateTimelinePreviewFromClientX env0 rectLeft rectWidth) ?q ys)"
      by simp
    have clq: "pipelineClips ?q \<noteq> []" using cl by simp
    from drain_requested[OF r tokq clq env] phq
    have "thumbnails ((workerResume env ^^ (n + 2))
            (foldl (updateTimelinePreviewFromClientX env0 rectLeft rectWidth) ?q ys))
          = thumbnails s @ (u, lt)
            # thumbnailFor (pipelineClips s) (pointerSeekTime (last ys) rectLeft rectWidth (pipelineClips s))"
      by simp
    then show ?thesis using False xs q th by simp
  qed
qed

text \<open>
  Claim C9, as the code has it. Every request overwrites the cell of the requested time, and
  a pass of the worker takes what the cell holds and empties it. The requests of a burst are
  made in an environment \<open>env0\<close>; the worker then runs on in an environment \<open>env\<close> where
  every step succeeds. The frame of the last position is a single frame, and:

  \<^item> when a worker is alive with the current token and suspended in a wait, the burst leaves
    the cell on the last position and draws nothing; the worker finishes the frame it was
    waiting for, if any, then draws exactly one frame for the burst, that of the last
    position, and nothing more however long it runs;
  \<^item> when no worker is running and the hidden element or the canvas is not mounted at the
    time of the requests, the worker that the first request starts waits before it reads the
    cell, and the burst draws exactly one frame, that of the last position;
  \<^item> when no worker is running and both surfaces are mounted (and the drawing context is
    available) at the time of the requests, the worker that the first request starts takes
    that request before its first wait: the burst draws the frame of its first position and,
    when it has more than one position, the frame of its last, and nothing in between.
\<close>

theorem burst_coalesces:
  assumes g: "pipelineHasClips s" "areControlsVisible s" "0 < rectWidth"
    and cl: "pipelineClips s \<noteq> []"
    and env: "surfacesMounted env" "contextAvailable env" "metadataReady env" "drawSucceeds env"
    and ne: "xs \<noteq> []"
  shows "(\<exists>u lt. thumbnailFor (pipelineClips s) (pointerSeekTime (last xs) rectLeft rectWidth (pipelineClips s))
                    = [(u, lt)])
       \<and> (timelinePreviewWorkerRunning s \<and> workerToken s = timelinePreviewToken s \<longrightarrow>
            timelinePreviewCaptureTime (foldl (updateTimelinePreviewFromClientX env0 rectLeft rectWidth) s xs)
              = Some (pointerSeekTime (last xs) rectLeft rectWidth (pipelineClips s))
            \<and> thumbnails (foldl (updateTimelinePreviewFromClientX env0 rectLeft rectWidth) s xs)
                = thumbnails s
            \<and> (workerPhase s = Polling \<longrightarrow>
                 (\<forall>n. thumbnails ((workerResume env ^^ (n + 2))
                          (foldl (updateTimelinePreviewFromClientX env0 rectLeft rectWidth) s xs))
                      = thumbnails s
                        @ thumbnailFor (pipelineClips s)
                            (pointerSeekTime (last xs) rectLeft rectWidth (pipelineClips s))))
            \<and> (\<forall>u0 lt0. workerPhase s = Capturing u0 lt0 \<longrightarrow>
                 (\<forall>n. thumbnails ((workerResume env ^^ (n + 2))
                          (foldl (updateTimelinePreviewFromClientX env0 rectLeft rectWidth) s xs))
                      = thumbnails s @ (u0, lt0)
                        # thumbnailFor (pipelineClips s)
                            (pointerSeekTime (last xs) rectLeft rectWidth (pipelineClips s)))))
       \<and> (\<not> timelinePreviewWorkerRunning s \<and> \<not> surfacesMounted env0 \<longrightarrow>
            (\<forall>n. thumbnails ((workerResume env ^^ (n + 2))
                     (foldl (updateTimelinePreviewFromClientX env0 rectLeft rectWidth) s xs))
                 = thumbnails s
                   @ thumbnailFor (pipelineClips s)
                       (pointerSeekTime (last xs) rectLeft rectWidth (pipelineClips s))))
       \<and> (\<not> timelinePreviewWorkerRunning s \<and> surfacesMounted env0 \<and> contextAvailable env0 \<longrightarrow>
            (\<forall>n. thumbnails ((workerResume env ^^ (n + 2))
                     (foldl (updateTimelinePreviewFromClientX env0 rectLeft rectWidth) s xs))
                 = thumbnails s
                   @ thumbnailFor (pipelineClips s)
                       (pointerSeekTime (hd xs) rectLeft rectWidth (pipelineClips s))
                   @ (if tl xs = [] then []
                      else thumbnailFor (pipelineClips s)
                             (pointerSeekTime (last xs) rectLeft rectWidth (pipelineClips s)))))"
proof (intro conjI impI allI)
  show "\<exists>u lt. thumbnailFor (pipelineClips s) (pointerSeekTime (last xs) rectLeft rectWidth (pipelineClips s))
                    = [(u, lt)]"
    using cl by (rule thumbnailFor_single)
next
  assume a: "timelinePreviewWorkerRunning s \<and> workerToken s = timelinePreviewToken s"
  then have run: "timelinePreviewWorkerRunning s" and tok: "workerToken s = timelinePreviewToken s"
    by simp_all
  note sb = suspended_burst[OF g run cl tok env ne, where ?env0.0 = env0 and rectLeft = rectLeft]
  show "timelinePreviewCaptureTime (foldl (updateTimelinePreviewFromClientX env0 rectLeft rectWidth) s xs)
              = Some (pointerSeekTime (last xs) rectLeft rectWidth (pipelineClips s))"
    using sb by simp
  show "thumbnails (foldl (updateTimelinePreviewFromClientX env0 rectLeft rectWidth) s xs) = thumbnails s"
    using sb by simp
  show "thumbnails ((workerResume env ^^ (n + 2))
                          (foldl (updateTimelinePreviewFromClientX env0 rectLeft rectWidth) s xs))
                      = thumbnails s
                        @ thumbnailFor (pipelineClips s)
                            (pointerSeekTime (last xs) rectLeft rectWidth (pipelineClips s))"
    if "workerPhase s = Polling" for n
    using sb that by simp
  show "thumbnails ((workerResume env ^^ (n + 2))
                          (foldl (updateTimelinePreviewFromClientX env0 rectLeft rectWidth) s xs))
                      = thumbnails s @ (u0, lt0)
                        # thumbnailFor (pipelineClips s)
                            (pointerSeekTime (last xs) rectLeft rectWidth (pipelineClips s))"
    if "workerPhase s = Capturing u0 lt0" for u0 lt0 n
    using sb that by simp
next
  fix n
  assume "\<not> timelinePreviewWorkerRunning s \<and> \<not> surfacesMounted env0"
  then have nr: "\<not> timelinePreviewWorkerRunning s" and um: "\<not> surfacesMounted env0" by simp_all
  show "thumbnails ((workerResume env ^^ (n + 2))
                     (foldl (updateTimelinePreviewFromClientX env0 rectLeft rectWidth) s xs))
                 = thumbnails s
                   @ thumbnailFor (pipelineClips s)
                       (pointerSeekTime (last xs) rectLeft rectWidth (pipelineClips s))"
    using g nr um cl env ne by (rule rest_unmounted_burst)
next
  fix n
  assume "\<not> timelinePreviewWorkerRunning s \<and> surfacesMounted env0 \<and> contextAvailable env0"
  then have nr: "\<not> timelinePreviewWorkerRunning s" and m: "surfacesMounted env0" "contextAvailable env0"
    by simp_all
  show "thumbnails ((workerResume env ^^ (n + 2))
                     (foldl (updateTimelinePreviewFromClientX env0 rectLeft rectWidth) s xs))
                 = thumbnails s
                   @ thumbnailFor (pipelineClips s)
                       (pointerSeekTime (hd xs) rectLeft rectWidth (pipelineClips s))
                   @ (if tl xs = [] then []
                      else thumbnailFor (pipelineClips s)
                             (pointerSeekTime (last xs) rectLeft rectWidth (pipelineClips s)))"
    using g nr m cl env ne by (rule rest_mounted_burst)
qed

text \<open>
  The claim as stated fails for a burst that finds no worker running while the hidden element
  and the canvas are mounted: the first request starts the worker, which takes that request
  before its first wait, so five positions from rest draw two frames, for the first position
  and for the last.
\<close>

theorem burst_from_rest_counterexample:
  "timelinePreviewWorkerRunning coldPipeline = False
   \<and> thumbnails (workerResume goodEnv (workerResume goodEnv
        (foldl (updateTimelinePreviewFromClientX goodEnv 0 230) coldPipeline [10, 50, 120, 180, 200])))
     = [(''blob:a'', 1), (''blob:c'', 5)]"
  by (simp add: coldPipeline_def goodEnv_def updateTimelinePreviewFromClientX_def loopHead_def
      workerResume_def idleIteration_def exitWorker_def pointer_times threeClips_targets
      threeClips_urls clamp_def Let_def)

text \<open>
  Three instances of the theorem with the five positions 10, 50, 120, 180 and 200 over the
  three-clip scenario: the pipeline whose worker is waiting in a pass draws the frame it was
  waiting for and the frame of the fifth position; the pipeline at rest whose canvas is not
  mounted when the positions arrive draws the frame of the fifth position only; the pipeline
  at rest with both surfaces mounted draws the frames of the first and the fifth position.
\<close>

theorem burst_coalesces_witness:
  "pipelineHasClips busyPipeline \<and> areControlsVisible busyPipeline \<and> (0::real) < 230
   \<and> pipelineClips busyPipeline \<noteq> []
   \<and> surfacesMounted goodEnv \<and> contextAvailable goodEnv \<and> metadataReady goodEnv \<and> drawSucceeds goodEnv
   \<and> timelinePreviewWorkerRunning busyPipeline
   \<and> workerToken busyPipeline = timelinePreviewToken busyPipeline
   \<and> workerPhase busyPipeline = Capturing ''blob:a'' 4
   \<and> thumbnails ((workerResume goodEnv ^^ (0 + 2))
        (foldl (updateTimelinePreviewFromClientX goodEnv 0 230) busyPipeline [10, 50, 120, 180, 200]))
       = [(''blob:a'', 4), (''blob:c'', 5)]
   \<and> pipelineHasClips coldPipeline \<and> areControlsVisible coldPipeline
   \<and> pipelineClips coldPipeline \<noteq> []
   \<and> \<not> timelinePreviewWorkerRunning coldPipeline \<and> \<not> surfacesMounted unmountedEnv
   \<and> thumbnails ((workerResume goodEnv ^^ (0 + 2))
        (foldl (updateTimelinePreviewFromClientX unmountedEnv 0 230) coldPipeline [10, 50, 120, 180, 200]))
       = [(''blob:c'', 5)]
   \<and> thumbnails ((workerResume goodEnv ^^ (0 + 2))
        (foldl (updateTimelinePreviewFromClientX goodEnv 0 230) coldPipeline [10, 50, 120, 180, 200]))
       = [(''blob:a'', 1), (''blob:c'', 5)]"
proof -
  have g: "pipelineHasClips busyPipeline" "areControlsVisible busyPipeline" "(0::real) < 230"
    and run: "timelinePreviewWorkerRunning busyPipeline"
    and cl: "pipelineClips busyPipeline \<noteq> []"
    and tok: "workerToken busyPipeline = timelinePreviewToken busyPipeline"
    and ph: "workerPhase busyPipeline = Capturing ''blob:a'' 4"
    and th0: "thumbnails busyPipeline = []"
    and c3: "pipelineClips busyPipeline = threeClips"
    by (simp_all add: busyPipeline_def coldPipeline_def threeClips_def)
  have gc: "pipelineHasClips coldPipeline" "areControlsVisible coldPipeline"
    and nrun: "\<not> timelinePreviewWorkerRunning coldPipeline"
    and clc: "pipelineClips coldPipeline \<noteq> []"
    and th0c: "thumbnails coldPipeline = []"
    and c3c: "pipelineClips coldPipeline = threeClips"
    by (simp_all add: coldPipeline_def threeClips_def)
  have env: "surfacesMounted goodEnv" "contextAvailable goodEnv" "metadataReady goodEnv" "drawSucceeds goodEnv"
    by (simp_all add: goodEnv_def)
  have um: "\<not> surfacesMounted unmountedEnv" by (simp add: unmountedEnv_def)
  have ne: "[10, 50, 120, 180, 200 :: real] \<noteq> []" by simp
  have l: "last [10, 50, 120, 180, 200 :: real] = 200" "hd [10, 50, 120, 180, 200 :: real] = 10"
    "tl [10, 50, 120, 180, 200 :: real] \<noteq> []"
    by simp_all
  have t1: "thumbnailFor threeClips 1 = [(''blob:a'', 1)]"
    by (simp add: thumbnailFor_def threeClips_targets threeClips_urls)
  note a = burst_coalesces [OF g cl env ne, where rectLeft = 0 and ?env0.0 = goodEnv]
  from a run tok ph have "thumbnails ((workerResume goodEnv ^^ (0 + 2))
        (foldl (updateTimelinePreviewFromClientX goodEnv 0 230) busyPipeline [10, 50, 120, 180, 200]))
       = thumbnails busyPipeline @ (''blob:a'', 4)
           # thumbnailFor (pipelineClips busyPipeline)
               (pointerSeekTime (last [10, 50, 120, 180, 200]) 0 230 (pipelineClips busyPipeline))"
    by blast
  then have r1: "thumbnails ((workerResume goodEnv ^^ (0 + 2))
        (foldl (updateTimelinePreviewFromClientX goodEnv 0 230) busyPipeline [10, 50, 120, 180, 200]))
       = [(''blob:a'', 4), (''blob:c'', 5)]"
    by (simp add: th0 c3 pointer_200 thumbnail_at_20)
  note b = burst_coalesces [OF gc g(3) clc env ne, where rectLeft = 0 and ?env0.0 = unmountedEnv]
  from b nrun um have "thumbnails ((workerResume goodEnv ^^ (0 + 2))
        (foldl (updateTimelinePreviewFromClientX unmountedEnv 0 230) coldPipeline [10, 50, 120, 180, 200]))
       = thumbnails coldPipeline
           @ thumbnailFor (pipelineClips coldPipeline)
               (pointerSeekTime (last [10, 50, 120, 180, 200]) 0 230 (pipelineClips coldPipeline))"
    by blast
  then have r2: "thumbnails ((workerResume goodEnv ^^ (0 + 2))
        (foldl (updateTimelinePreviewFromClientX unmountedEnv 0 230) coldPipeline [10, 50, 120, 180, 200]))
       = [(''blob:c'', 5)]"
    by (simp add: th0c c3c pointer_200 thumbnail_at_20)
  note c = burst_coalesces [OF gc g(3) clc env ne, where rectLeft = 0 and ?env0.0 = goodEnv]
  from c nrun env have "thumbnails ((workerResume goodEnv ^^ (0 + 2))
        (foldl (updateTimelinePreviewFromClientX goodEnv 0 230) coldPipeline [10, 50, 120, 180, 200]))
       = thumbnails coldPipeline
           @ thumbnailFor (pipelineClips coldPipeline)
               (pointerSeekTime (hd [10, 50, 120, 180, 200]) 0 230 (pipelineClips coldPipeline))
           @ (if tl [10, 50, 120, 180, 200 :: real] = [] then []
              else thumbnailFor (pipelineClips coldPipeline)
                     (pointerSeekTime (last [10, 50, 120, 180, 200]) 0 230 (pipelineClips coldPipeline)))"
    by blast
  then have r3: "thumbnails ((workerResume goodEnv ^^ (0 + 2))
        (foldl (updateTimelinePreviewFromClientX goodEnv 0 230) coldPipeline [10, 50, 120, 180, 200]))
       = [(''blob:a'', 1), (''blob:c'', 5)]"
    by (simp add: th0c c3c pointer_times thumbnail_at_20 t1)
  from g cl env run tok ph r1 gc clc nrun um r2 r3 show ?thesis by blast
qed
end
